theory Spec2Isabelle
  imports Complex_Main "HOL-Library.Sublist"
begin

section \<open>Data model: \<open>models/file_item.py\<close>\<close>

text \<open>
  The source keeps the status of a row as a free-form string. The four strings that the
  program ever stores are the dataclass default (not computed), the two values written on
  line 83 of \<open>services/file_scanner.py\<close> (computed, cancelled) and the value written by
  the exception handler on line 89 (calculation error). They are modelled as the four
  constructors below, in that order.
\<close>

datatype status = NotComputed | Computed | Cancelled | CalcError

text \<open>
  The dataclass \<open>FileItem\<close>. The field \<open>size\<close> is called \<open>size_f\<close> here because
  \<open>size\<close> is a constant of HOL. Python integers are unbounded, hence \<open>int\<close>.
\<close>

record file_item =
  name :: string
  path :: string
  is_directory :: bool
  size_f :: "int option"
  file_count :: "int option"
  status :: status
  checked :: bool

text \<open>
  The constructor call of \<open>scan_directory\<close> (lines 39 to 43) passes \<open>name\<close>, \<open>path\<close> and
  \<open>is_directory\<close>; every other field takes the default of the dataclass declaration:
  \<open>size = None\<close>, \<open>file_count = 0\<close>, the not-computed status string, \<open>checked = False\<close>.
\<close>

definition FileItem :: "string \<Rightarrow> string \<Rightarrow> bool \<Rightarrow> file_item" where
  "FileItem n p d =
     \<lparr>name = n, path = p, is_directory = d, size_f = None, file_count = Some 0,
      status = NotComputed, checked = False\<rparr>"

subsection \<open>\<open>FileItem.format_size\<close>\<close>














section \<open>The shared stop flag: \<open>FileScanner.stopped\<close>\<close>

text \<open>
  \<open>stopped\<close> is the attribute of the one \<open>FileScanner\<close> object that every worker shares.
  A worker thread reads it at its checkpoints; the user-interface thread writes it through
  \<open>stop()\<close>. The interleaving of the two threads is made explicit as an oracle:
  \<open>stop_calls\<close> lists, for each upcoming read of the flag by the running worker, whether
  another thread has called \<open>stop()\<close> since the worker last touched the flag. When the
  list is exhausted nobody calls \<open>stop()\<close> any more.
\<close>

record scanner =
  stopped :: bool
  stop_calls :: "bool list"

definition stop :: "scanner \<Rightarrow> scanner" where
  "stop s = s\<lparr>stopped := True\<rparr>"

text \<open>One read of \<open>self.stopped\<close> by the worker thread.\<close>

definition poll :: "scanner \<Rightarrow> bool \<times> scanner" where
  "poll s =
     (case stop_calls s of
        [] \<Rightarrow> (stopped s, s)
      | b # bs \<Rightarrow>
          (let s' = (if b then stop s else s)\<lparr>stop_calls := bs\<rparr>
           in (stopped s', s')))"

section \<open>The operating system as the program sees it\<close>

text \<open>
  A Python generator or iterator that is consumed once: it yields a value and continues,
  is exhausted, or raises an exception at the next request.
\<close>

datatype 'a gen = Stop | Raise | Yield 'a "'a gen"

fun gen_of_list :: "'a list \<Rightarrow> 'a gen" where
  "gen_of_list [] = Stop"
| "gen_of_list (x # xs) = Yield x (gen_of_list xs)"

text \<open>
  What \<open>os.stat\<close> and \<open>os.lstat\<close> report about a path, as far as the program depends on
  it: the kind of file, the inode number (two names of one hard-linked file share it) and
  the size in bytes.
\<close>

datatype file_kind = S_IFREG | S_IFDIR | S_IFLNK | S_IFOTHER

record stat_result =
  st_kind :: file_kind
  st_ino :: nat
  st_size :: int

text \<open>One \<open>os.DirEntry\<close>: \<open>is_dir()\<close> answers or raises \<open>OSError\<close> (\<open>None\<close>).\<close>

record dir_entry =
  entry_name :: string
  entry_path :: string
  entry_is_dir :: "bool option"

text \<open>
  One regular file that \<open>shutil.copytree\<close> hands to its \<open>copy_function\<close>:
  \<open>openable\<close> says whether \<open>os.path.getsize\<close> and the two \<open>open\<close> calls succeed,
  \<open>reads\<close> is the sequence of buffer lengths that \<open>fsrc.read(8192)\<close> returns (\<open>Raise\<close>:
  the read or the write of the next buffer raises \<open>OSError\<close>), \<open>copystat_ok\<close> whether
  \<open>shutil.copystat\<close> succeeds. A source tree is the list of its files in the order of the
  traversal, the subdirectories and links that \<open>copytree\<close> creates on its way not being
  represented; \<open>makedirs_ok\<close> is false when the target directory cannot be created, for
  instance because it exists already.
\<close>

record copy_job =
  job_src :: string
  job_dst :: string
  openable :: bool
  reads :: "nat gen"
  copystat_ok :: bool

record copy_plan =
  makedirs_ok :: bool
  jobs :: "copy_job list"

text \<open>
  The library calls that the scanner makes. \<open>walk p\<close> is the sequence of triples
  \<open>(root, dirs, files)\<close> that \<open>os.walk(p)\<close> yields, \<open>scandir p\<close> the listing of
  \<open>os.scandir(p)\<close>; \<open>stat\<close> follows symbolic links, \<open>lstat\<close> does not, and \<open>None\<close> stands
  for a raised \<open>OSError\<close>. \<open>tree_jobs src target\<close> is what \<open>shutil.copytree(src, target)\<close>
  finds to do.
\<close>

record os_env =
  walk :: "string \<Rightarrow> (string \<times> string list \<times> string list) gen"
  scandir :: "string \<Rightarrow> dir_entry gen"
  stat :: "string \<Rightarrow> stat_result option"
  lstat :: "string \<Rightarrow> stat_result option"
  tree_jobs :: "string \<Rightarrow> string \<Rightarrow> copy_plan"

text \<open>\<open>os.path.getsize(p)\<close> is \<open>os.stat(p).st_size\<close>: it resolves symbolic links.\<close>

definition getsize :: "os_env \<Rightarrow> string \<Rightarrow> int option" where
  "getsize env p = map_option st_size (stat env p)"

text \<open>\<open>os.path.join\<close> of two components on a POSIX system.\<close>

definition path_join :: "string \<Rightarrow> string \<Rightarrow> string" where
  "path_join a b =
     (if b \<noteq> [] \<and> hd b = CHR ''/'' then b
      else if a = [] \<or> last a = CHR ''/'' then a @ b
      else a @ ''/'' @ b)"

section \<open>\<open>FileScanner.calculate_directory_info\<close>\<close>

text \<open>
  The inner loop (lines 70 to 78) over the files of one triple. The accumulator is
  \<open>(total_size, file_count)\<close>. A raised \<open>getsize\<close> is logged and the file is skipped;
  \<open>break\<close> leaves this loop only.
\<close>

fun files_loop ::
  "os_env \<Rightarrow> string \<Rightarrow> string list \<Rightarrow> int \<times> int \<Rightarrow> scanner \<Rightarrow> (int \<times> int) \<times> scanner" where
  "files_loop env root_d [] acc s = (acc, s)"
| "files_loop env root_d (file # files) acc s =
     (let (st, s1) = poll s in
      if st then (acc, s1)
      else
        (case getsize env (path_join root_d file) of
           None \<Rightarrow> files_loop env root_d files acc s1
         | Some n \<Rightarrow> files_loop env root_d files (fst acc + n, snd acc + 1) s1))"

text \<open>
  The outer loop (lines 65 to 78) over the triples of \<open>os.walk\<close>. The result is \<open>None\<close>
  when the iteration raises, which takes the control to the handler on line 87.
\<close>

fun walk_loop ::
  "os_env \<Rightarrow> (string \<times> string list \<times> string list) gen \<Rightarrow> int \<times> int \<Rightarrow> scanner
     \<Rightarrow> (int \<times> int) option \<times> scanner" where
  "walk_loop env Stop acc s = (Some acc, s)"
| "walk_loop env Raise acc s = (None, s)"
| "walk_loop env (Yield (root_d, dirs, files) g) acc s =
     (let (st, s1) = poll s in
      if st then (Some acc, s1)
      else
        (let (acc', s2) = files_loop env root_d files acc s1
         in walk_loop env g acc' s2))"

definition calculate_directory_info ::
  "os_env \<Rightarrow> file_item \<Rightarrow> scanner \<Rightarrow> file_item \<times> scanner" where
  "calculate_directory_info env item s =
     (case walk_loop env (walk env (path item)) (0, 0) s of
        (None, s1) \<Rightarrow> (item\<lparr>status := CalcError\<rparr>, s1)
      | (Some (total_size, count), s1) \<Rightarrow>
          (let (st, s2) = poll s1
           in (item\<lparr>size_f := Some total_size, file_count := Some count,
                     status := (if \<not> st then Computed else Cancelled)\<rparr>, s2)))"

section \<open>Signals of the worker threads\<close>

text \<open>
  The Qt signals that the three workers emit, in emission order. The throughput argument
  of the progress signal of the calculation is a wall-clock measurement and is left out;
  so are the message of an error signal, which is the text of the exception, and the last
  argument of the progress signal of the backup, which is always 0.
\<close>

datatype event =
    FileFound file_item
  | ScanFinished bool
  | ScanError
  | CalcProgress file_item nat nat
  | CalcFinished
  | BackupProgress string nat nat int
  | BackupFinished bool

section \<open>\<open>CalculateWorker.run\<close>\<close>

text \<open>
  The loop of lines 24 to 35: \<open>i\<close> counts from 1, and \<open>total_n\<close>, the variable
  \<open>total\<close>, is the length of the batch. The items are mutated in place; the function
  returns them in their final state, the items that the loop never reached unchanged.
  \<open>calculate_directory_info\<close> catches every exception itself, so the handler of the
  worker (lines 39 to 41) has no path leading to it here.
\<close>

fun calculate_loop ::
  "os_env \<Rightarrow> file_item list \<Rightarrow> nat \<Rightarrow> nat \<Rightarrow> scanner
     \<Rightarrow> event list \<times> file_item list \<times> scanner" where
  "calculate_loop env [] i total_n s = ([], [], s)"
| "calculate_loop env (item # items) i total_n s =
     (let (st, s1) = poll s in
      if st then ([], item # items, s1)
      else
        (let (item', s2) = calculate_directory_info env item s1;
             (evs, items', s3) = calculate_loop env items (i + 1) total_n s2
         in (CalcProgress item' i total_n # evs, item' # items', s3)))"

definition CalculateWorker_run ::
  "os_env \<Rightarrow> file_item list \<Rightarrow> scanner \<Rightarrow> event list \<times> file_item list \<times> scanner" where
  "CalculateWorker_run env items s =
     (let (evs, items', s1) = calculate_loop env items 1 (length items) s
      in (evs @ [CalcFinished], items', s1))"

section \<open>\<open>FileScanner.scan_directory\<close> and \<open>ScanWorker.run\<close>\<close>

text \<open>What one \<open>next()\<close> on a generator function of the program gives back.\<close>

datatype 'a step = Yielded 'a | Finished | Raised

text \<open>
  The \<open>for\<close> loop of \<open>scan_directory\<close> (lines 33 to 46), run from the remaining listing up to
  its next \<open>yield\<close>. An exception of the listing or of \<open>is_dir()\<close> is logged and raised
  again by the handler on line 48. The constructor call inside the inner \<open>try\<close> cannot fail.
\<close>

fun scan_loop ::
  "dir_entry gen \<Rightarrow> scanner \<Rightarrow> (file_item \<times> dir_entry gen) step \<times> scanner" where
  "scan_loop Stop s = (Finished, s)"
| "scan_loop Raise s = (Raised, s)"
| "scan_loop (Yield entry g) s =
     (let (st, s1) = poll s in
      if st then (Finished, s1)
      else
        (case entry_is_dir entry of
           None \<Rightarrow> (Raised, s1)
         | Some False \<Rightarrow> scan_loop g s1
         | Some True \<Rightarrow> (Yielded (FileItem (entry_name entry) (entry_path entry) True, g), s1)))"

text \<open>
  The first \<open>next()\<close> runs the body from its beginning: line 30 clears the flag, then
  \<open>os.scandir\<close> is called and the loop starts.
\<close>

definition scan_directory ::
  "os_env \<Rightarrow> string \<Rightarrow> scanner \<Rightarrow> (file_item \<times> dir_entry gen) step \<times> scanner" where
  "scan_directory env p s = scan_loop (scandir env p) (s\<lparr>stopped := False\<rparr>)"

lemma scan_loop_smaller:
  "scan_loop g s = (Yielded (item, g'), s') \<Longrightarrow> size g' < size g"
proof (induction g arbitrary: s)
  case (Yield entry g)
  then show ?case
    by (fastforce split: prod.splits if_splits option.splits bool.splits)
qed simp_all

text \<open>
  The \<open>for\<close> loop of \<open>ScanWorker.run\<close> (lines 21 to 26), given what the generator has just
  returned, followed by the \<open>finished\<close> signal of line 26 or by the handler of lines 28 to
  31. A \<open>break\<close> abandons the generator.
\<close>

function scan_worker_loop ::
  "(file_item \<times> dir_entry gen) step \<Rightarrow> scanner \<Rightarrow> event list \<times> scanner" where
  "scan_worker_loop Finished s =
     (let (st, s1) = poll s in ([ScanFinished (\<not> st)], s1))"
| "scan_worker_loop Raised s = ([ScanError, ScanFinished False], s)"
| "scan_worker_loop (Yielded (item, g)) s =
     (let (st, s1) = poll s in
      if st then (let (st2, s2) = poll s1 in ([ScanFinished (\<not> st2)], s2))
      else
        (let (nx, s2) = scan_loop g s1;
             (evs, s3) = scan_worker_loop nx s2
         in (FileFound item # evs, s3)))"
  by pat_completeness auto
termination
proof (relation "measure (\<lambda>(nx, s). case nx of Yielded (item, g) \<Rightarrow> Suc (size g) | _ \<Rightarrow> 0)")
  show "wf (measure (\<lambda>(nx, s). case nx of Yielded (item, g) \<Rightarrow> Suc (size g) | _ \<Rightarrow> 0))"
    by simp
next
  fix item :: file_item and g :: "dir_entry gen" and s x st s1 y nx s2
  assume "(nx, s2) = y" and "y = scan_loop g s1"
  then have eq: "scan_loop g s1 = (nx, s2)" by simp
  show "((nx, s2), Yielded (item, g), s)
          \<in> measure (\<lambda>(nx, s). case nx of Yielded (item, g) \<Rightarrow> Suc (size g) | _ \<Rightarrow> 0)"
  proof (cases nx)
    case (Yielded pr)
    obtain item' g' where pr: "pr = (item', g')" by (cases pr)
    from eq Yielded pr have "size g' < size g" by (auto dest: scan_loop_smaller)
    with Yielded pr show ?thesis by simp
  qed simp_all
qed

definition ScanWorker_run :: "os_env \<Rightarrow> string \<Rightarrow> scanner \<Rightarrow> event list \<times> scanner" where
  "ScanWorker_run env p s =
     (let (nx, s1) = scan_directory env p s in scan_worker_loop nx s1)"

text \<open>
  For the statements about the enumeration: the entries that a listing holds for the
  caller, in listing order, up to its end or up to the point where it raises. These are
  the directories among the children.
\<close>

fun listed_dirs :: "dir_entry gen \<Rightarrow> file_item list" where
  "listed_dirs Stop = []"
| "listed_dirs Raise = []"
| "listed_dirs (Yield entry g) =
     (case entry_is_dir entry of
        None \<Rightarrow> []
      | Some False \<Rightarrow> listed_dirs g
      | Some True \<Rightarrow> FileItem (entry_name entry) (entry_path entry) True # listed_dirs g)"

text \<open>
  Whether a listing ends with an exception, of the iteration itself or of \<open>is_dir()\<close>,
  when it is read to its end.
\<close>

fun listing_raises :: "dir_entry gen \<Rightarrow> bool" where
  "listing_raises Stop = False"
| "listing_raises Raise = True"
| "listing_raises (Yield entry g) =
     (case entry_is_dir entry of None \<Rightarrow> True | Some d \<Rightarrow> listing_raises g)"

text \<open>A listing used in the examples: two directories with a regular file between them.\<close>

definition scan_example_env :: os_env where
  "scan_example_env =
     \<lparr>walk = (\<lambda>p. Stop),
      scandir = (\<lambda>p. if p = ''/r''
                 then gen_of_list
                   [\<lparr>entry_name = ''a'', entry_path = ''/r/a'', entry_is_dir = Some True\<rparr>,
                    \<lparr>entry_name = ''f.txt'', entry_path = ''/r/f.txt'', entry_is_dir = Some False\<rparr>,
                    \<lparr>entry_name = ''b'', entry_path = ''/r/b'', entry_is_dir = Some True\<rparr>]
                 else Raise),
      stat = (\<lambda>p. None),
      lstat = (\<lambda>p. None),
      tree_jobs = (\<lambda>src target. \<lparr>makedirs_ok = False, jobs = []\<rparr>)\<rparr>"

section \<open>\<open>FileScanner.backup_directories\<close> and \<open>BackupWorker.run\<close>\<close>

text \<open>
  \<open>shutil.copytree\<close> treats two classes of exception differently: an \<open>OSError\<close> (which
  includes \<open>shutil.Error\<close>) raised for one entry is collected and the traversal goes on, to
  be raised as one \<open>shutil.Error\<close> at the end; any other exception leaves \<open>copytree\<close> at
  once. The cancellation of line 168 raises a plain \<open>Exception\<close>.
\<close>

datatype exn = OSError | OtherException

text \<open>What the copy does to the destination, in order.\<close>

datatype fs_op = MakeDirs string | OpenWrite string | WriteChunk string nat | CopyStat string

text \<open>
  The \<open>while True\<close> loop of \<open>_copy_with_progress\<close> (lines 166 to 178). The callback is the
  one of \<open>BackupWorker.run\<close>, which emits the progress signal with \<open>copied\<close> in the place of
  the speed.
\<close>

fun copy_chunks ::
  "string \<Rightarrow> string \<Rightarrow> nat gen \<Rightarrow> nat \<Rightarrow> nat \<Rightarrow> int \<Rightarrow> scanner
     \<Rightarrow> exn option \<times> event list \<times> fs_op list \<times> scanner" where
  "copy_chunks src dst Stop current total_n copied s =
     (let (st, s1) = poll s in
      if st then (Some OtherException, [], [], s1) else (None, [], [], s1))"
| "copy_chunks src dst Raise current total_n copied s =
     (let (st, s1) = poll s in
      if st then (Some OtherException, [], [], s1) else (Some OSError, [], [], s1))"
| "copy_chunks src dst (Yield n g) current total_n copied s =
     (let (st, s1) = poll s in
      if st then (Some OtherException, [], [], s1)
      else if n = 0 then (None, [], [], s1)
      else
        (let (r, evs, ops, s2) = copy_chunks src dst g current total_n (copied + int n) s1
         in (r, BackupProgress src current total_n (copied + int n) # evs,
             WriteChunk dst n # ops, s2)))"

text \<open>
  \<open>_copy_with_progress\<close>: every exception is logged and raised again unchanged (lines 183
  to 185). Opening the destination for writing creates it.
\<close>

definition copy_with_progress ::
  "copy_job \<Rightarrow> nat \<Rightarrow> nat \<Rightarrow> scanner \<Rightarrow> exn option \<times> event list \<times> fs_op list \<times> scanner" where
  "copy_with_progress job current total_n s =
     (if \<not> openable job then (Some OSError, [], [], s)
      else
        (let (r, evs, ops, s1) =
               copy_chunks (job_src job) (job_dst job) (reads job) current total_n 0 s
         in case r of
              Some e \<Rightarrow> (Some e, evs, OpenWrite (job_dst job) # ops, s1)
            | None \<Rightarrow>
                if copystat_ok job
                then (None, evs, OpenWrite (job_dst job) # ops @ [CopyStat (job_dst job)], s1)
                else (Some OSError, evs, OpenWrite (job_dst job) # ops, s1)))"

text \<open>
  \<open>shutil.copy2\<close>, the other branch of the \<open>lambda\<close> on lines 127 to 129: the same copy
  without checkpoints and without progress.
\<close>

fun copy2_chunks :: "string \<Rightarrow> nat gen \<Rightarrow> exn option \<times> fs_op list" where
  "copy2_chunks dst Stop = (None, [])"
| "copy2_chunks dst Raise = (Some OSError, [])"
| "copy2_chunks dst (Yield n g) =
     (if n = 0 then (None, [])
      else (let (r, ops) = copy2_chunks dst g in (r, WriteChunk dst n # ops)))"

definition copy2 :: "copy_job \<Rightarrow> exn option \<times> fs_op list" where
  "copy2 job =
     (if \<not> openable job then (Some OSError, [])
      else
        (let (r, ops) = copy2_chunks (job_dst job) (reads job)
         in case r of
              Some e \<Rightarrow> (Some e, OpenWrite (job_dst job) # ops)
            | None \<Rightarrow>
                if copystat_ok job
                then (None, OpenWrite (job_dst job) # ops @ [CopyStat (job_dst job)])
                else (Some OSError, OpenWrite (job_dst job) # ops)))"

text \<open>The \<open>lambda\<close> passed as \<open>copy_function\<close>; \<open>cb\<close> says whether a callback was given.\<close>

definition copy_function ::
  "bool \<Rightarrow> copy_job \<Rightarrow> nat \<Rightarrow> nat \<Rightarrow> scanner
     \<Rightarrow> exn option \<times> event list \<times> fs_op list \<times> scanner" where
  "copy_function cb job current total_n s =
     (if cb then copy_with_progress job current total_n s
      else (let (r, ops) = copy2 job in (r, [], ops, s)))"

text \<open>
  \<open>shutil.copytree\<close> over the files of one source: \<open>errors\<close> says whether an \<open>OSError\<close> has
  been collected so far.
\<close>

fun copytree_entries ::
  "bool \<Rightarrow> copy_job list \<Rightarrow> nat \<Rightarrow> nat \<Rightarrow> bool \<Rightarrow> scanner
     \<Rightarrow> exn option \<times> event list \<times> fs_op list \<times> scanner" where
  "copytree_entries cb [] current total_n errors s =
     ((if errors then Some OSError else None), [], [], s)"
| "copytree_entries cb (job # js) current total_n errors s =
     (let (r, evs, ops, s1) = copy_function cb job current total_n s in
      case r of
        Some OtherException \<Rightarrow> (Some OtherException, evs, ops, s1)
      | _ \<Rightarrow>
          (let (r', evs', ops', s2) =
                 copytree_entries cb js current total_n (errors \<or> r = Some OSError) s1
           in (r', evs @ evs', ops @ ops', s2)))"

definition copytree ::
  "os_env \<Rightarrow> bool \<Rightarrow> string \<Rightarrow> string \<Rightarrow> nat \<Rightarrow> nat \<Rightarrow> scanner
     \<Rightarrow> exn option \<times> event list \<times> fs_op list \<times> scanner" where
  "copytree env cb src target current total_n s =
     (let plan = tree_jobs env src target in
      if \<not> makedirs_ok plan then (Some OSError, [], [], s)
      else
        (let (r, evs, ops, s1) = copytree_entries cb (jobs plan) current total_n False s
         in (r, evs, MakeDirs target # ops, s1)))"

text \<open>\<open>os.path.basename\<close>: what follows the last slash.\<close>

definition basename :: "string \<Rightarrow> string" where
  "basename p = rev (takeWhile (\<lambda>c. c \<noteq> CHR ''/'') (rev p))"

text \<open>
  The loop of \<open>backup_directories\<close> (lines 112 to 136); \<open>index\<close> counts from 1. Any
  exception of \<open>copytree\<close> is logged and the function returns \<open>False\<close> (lines 132 to 134).
\<close>

fun backup_loop ::
  "os_env \<Rightarrow> bool \<Rightarrow> string list \<Rightarrow> string \<Rightarrow> nat \<Rightarrow> nat \<Rightarrow> scanner
     \<Rightarrow> bool \<times> event list \<times> fs_op list \<times> scanner" where
  "backup_loop env cb [] dest_path index total_items s =
     (let (st, s1) = poll s in (\<not> st, [], [], s1))"
| "backup_loop env cb (src_path # rest) dest_path index total_items s =
     (let (st, s1) = poll s in
      if st then (False, [], [], s1)
      else
        (let (r, evs, ops, s2) =
               copytree env cb src_path (path_join dest_path (basename src_path))
                 index total_items s1
         in case r of
              Some e \<Rightarrow> (False, evs, ops, s2)
            | None \<Rightarrow>
                (let (ok, evs', ops', s3) =
                       backup_loop env cb rest dest_path (index + 1) total_items s2
                 in (ok, evs @ evs', ops @ ops', s3))))"

definition backup_directories ::
  "os_env \<Rightarrow> bool \<Rightarrow> string list \<Rightarrow> string \<Rightarrow> scanner
     \<Rightarrow> bool \<times> event list \<times> fs_op list \<times> scanner" where
  "backup_directories env cb src_paths dest_path s =
     backup_loop env cb src_paths dest_path 1 (length src_paths) (s\<lparr>stopped := False\<rparr>)"

text \<open>
  \<open>BackupWorker.run\<close> always passes its callback. \<open>backup_directories\<close> catches every
  exception itself, so the handler of the worker has no path leading to it here.
\<close>

definition BackupWorker_run ::
  "os_env \<Rightarrow> string list \<Rightarrow> string \<Rightarrow> scanner \<Rightarrow> event list \<times> fs_op list \<times> scanner" where
  "BackupWorker_run env src_paths dest_path s =
     (let (success, evs, ops, s1) = backup_directories env True src_paths dest_path s
      in (evs @ [BackupFinished success], ops, s1))"

section \<open>\<open>MainWindow._start_worker\<close>\<close>

text \<open>
  The three worker classes, each with the arguments of its constructor.
\<close>

datatype worker =
    ScanWorker string
  | CalculateWorker "file_item list"
  | BackupWorker "string list" string

text \<open>The \<open>run\<close> method of a worker, with the signals it emits.\<close>

fun worker_run :: "os_env \<Rightarrow> worker \<Rightarrow> scanner \<Rightarrow> event list \<times> scanner" where
  "worker_run env (ScanWorker p) s = ScanWorker_run env p s"
| "worker_run env (CalculateWorker items) s =
     (let (evs, items', s1) = CalculateWorker_run env items s in (evs, s1))"
| "worker_run env (BackupWorker src_paths dest_path) s =
     (let (evs, ops, s1) = BackupWorker_run env src_paths dest_path s in (evs, s1))"

text \<open>
  The part of the main window that coordinates the workers: the scanner object, the
  worker thread that has been started and whose \<open>run\<close> has not returned yet
  (\<open>_current_worker\<close> when \<open>isRunning()\<close> holds), and every signal emitted so far. A thread
  that has been started executes \<open>run\<close> concurrently with the user interface; the model
  follows the schedule in which the thread has not yet executed a statement of \<open>run\<close>
  when the next worker is submitted.
\<close>

record main_window =
  scanner_obj :: scanner
  current_worker :: "worker option"
  emitted :: "event list"

text \<open>
  \<open>_start_worker\<close> (lines 690 to 712). For a worker that is running it calls \<open>quit()\<close>,
  which asks the event loop of the thread to exit and does nothing to a thread whose
  \<open>run\<close> has no event loop, as is the case for the three workers; then \<open>wait()\<close>, which
  blocks until \<open>run\<close> has returned. \<open>scanner.stop()\<close> is not called. The new worker is
  then started.
\<close>

definition start_worker :: "os_env \<Rightarrow> worker \<Rightarrow> main_window \<Rightarrow> main_window" where
  "start_worker env worker mw =
     (let mw1 =
        (case current_worker mw of
           None \<Rightarrow> mw
         | Some cur \<Rightarrow>
             (let (evs, s1) = worker_run env cur (scanner_obj mw)
              in mw\<lparr>scanner_obj := s1, emitted := emitted mw @ evs\<rparr>))
      in mw1\<lparr>current_worker := Some worker\<rparr>)"

section \<open>Vocabulary for the statements about the calculation\<close>

text \<open>
  None of the following is code of the program. \<open>raises\<close> says whether an iteration ends
  with an exception. \<open>walked_files\<close> lists the paths \<open>os.path.join(root, file)\<close> of all
  file entries of all triples of a walk, in order; \<open>checkpoints\<close> lists the reads of the
  flag that an undisturbed calculation makes before the final one of line 83: one per
  triple (\<open>None\<close>) and one per file (the path of the file); \<open>files_in\<close> keeps the files
  of such a list. \<open>total_size\<close> adds what \<open>getsize\<close> returns for each path that it can
  size, \<open>readable_count\<close> counts those paths. A scanner is \<open>quiet\<close> when the flag is
  clear and nobody is going to call \<open>stop()\<close>.
\<close>

fun raises :: "'a gen \<Rightarrow> bool" where
  "raises Stop = False"
| "raises Raise = True"
| "raises (Yield x g) = raises g"

fun walked_files :: "(string \<times> string list \<times> string list) gen \<Rightarrow> string list" where
  "walked_files Stop = []"
| "walked_files Raise = []"
| "walked_files (Yield (root_d, dirs, files) g) = map (path_join root_d) files @ walked_files g"

fun checkpoints :: "(string \<times> string list \<times> string list) gen \<Rightarrow> string option list" where
  "checkpoints Stop = []"
| "checkpoints Raise = []"
| "checkpoints (Yield (root_d, dirs, files) g) =
     None # map (\<lambda>file. Some (path_join root_d file)) files @ checkpoints g"

fun files_in :: "string option list \<Rightarrow> string list" where
  "files_in [] = []"
| "files_in (None # cs) = files_in cs"
| "files_in (Some p # cs) = p # files_in cs"

definition total_size :: "os_env \<Rightarrow> string list \<Rightarrow> int" where
  "total_size env ps = sum_list (map (\<lambda>p. case getsize env p of None \<Rightarrow> 0 | Some n \<Rightarrow> n) ps)"

definition readable_count :: "os_env \<Rightarrow> string list \<Rightarrow> int" where
  "readable_count env ps = int (length (filter (\<lambda>p. getsize env p \<noteq> None) ps))"

definition quiet :: "scanner \<Rightarrow> bool" where
  "quiet s = (\<not> stopped s \<and> True \<notin> set (stop_calls s))"

text \<open>
  The regular files behind a list of paths, each one once: two names of one hard-linked
  file have the same inode, size and kind, and so the same \<open>lstat\<close> result.
\<close>

definition regular_files :: "os_env \<Rightarrow> string list \<Rightarrow> stat_result list" where
  "regular_files env ps =
     remdups (filter (\<lambda>st. st_kind st = S_IFREG) (List.map_filter (lstat env) ps))"

text \<open>
  A file system for the examples. \<open>/data\<close> holds \<open>a.bin\<close> (3 bytes), \<open>b.bin\<close> (4 bytes) and
  the directory \<open>sub\<close> with \<open>c.bin\<close>, which cannot be sized; the walk of \<open>/broken\<close> raises;
  any other path has nothing to walk.
\<close>

definition calc_example_env :: os_env where
  "calc_example_env =
     \<lparr>walk = (\<lambda>p. if p = ''/data''
                then gen_of_list
                  [(''/data'', [''sub''], [''a.bin'', ''b.bin'']), (''/data/sub'', [], [''c.bin''])]
                else if p = ''/broken'' then Raise else Stop),
      scandir = (\<lambda>p. Stop),
      stat = (\<lambda>p. if p = ''/data/a.bin'' then Some \<lparr>st_kind = S_IFREG, st_ino = 1, st_size = 3\<rparr>
                else if p = ''/data/b.bin'' then Some \<lparr>st_kind = S_IFREG, st_ino = 2, st_size = 4\<rparr>
                else None),
      lstat = (\<lambda>p. if p = ''/data/a.bin'' then Some \<lparr>st_kind = S_IFREG, st_ino = 1, st_size = 3\<rparr>
                 else if p = ''/data/b.bin'' then Some \<lparr>st_kind = S_IFREG, st_ino = 2, st_size = 4\<rparr>
                 else None),
      tree_jobs = (\<lambda>src target. \<lparr>makedirs_ok = False, jobs = []\<rparr>)\<rparr>"

text \<open>\<open>/d\<close> holds one file of 5 bytes under the two names \<open>a\<close> and \<open>b\<close> (a hard link).\<close>

definition hardlink_env :: os_env where
  "hardlink_env =
     \<lparr>walk = (\<lambda>p. if p = ''/d'' then gen_of_list [(''/d'', [], [''a'', ''b''])] else Stop),
      scandir = (\<lambda>p. Stop),
      stat = (\<lambda>p. if p = ''/d/a'' \<or> p = ''/d/b''
                then Some \<lparr>st_kind = S_IFREG, st_ino = 7, st_size = 5\<rparr> else None),
      lstat = (\<lambda>p. if p = ''/d/a'' \<or> p = ''/d/b''
                 then Some \<lparr>st_kind = S_IFREG, st_ino = 7, st_size = 5\<rparr> else None),
      tree_jobs = (\<lambda>src target. \<lparr>makedirs_ok = False, jobs = []\<rparr>)\<rparr>"

text \<open>
  \<open>/d\<close> holds the symbolic link \<open>l\<close>, 6 bytes long itself, to a regular file of 1000
  bytes outside \<open>/d\<close>.
\<close>

definition symlink_env :: os_env where
  "symlink_env =
     \<lparr>walk = (\<lambda>p. if p = ''/d'' then gen_of_list [(''/d'', [], [''l''])] else Stop),
      scandir = (\<lambda>p. Stop),
      stat = (\<lambda>p. if p = ''/d/l''
                then Some \<lparr>st_kind = S_IFREG, st_ino = 3, st_size = 1000\<rparr> else None),
      lstat = (\<lambda>p. if p = ''/d/l''
                 then Some \<lparr>st_kind = S_IFLNK, st_ino = 9, st_size = 6\<rparr> else None),
      tree_jobs = (\<lambda>src target. \<lparr>makedirs_ok = False, jobs = []\<rparr>)\<rparr>"

section \<open>Vocabulary for the statements about the copy\<close>

text \<open>
  None of the following is code of the program. \<open>read_fails\<close> says whether reading a file
  to its end meets an error, \<open>chunk_ops\<close> lists the buffers written until then.
  \<open>job_fails\<close> says whether the copy of one file raises when nobody cancels, \<open>job_ops\<close>
  what it has done to the destination by then. \<open>source_fails\<close> and \<open>source_ops\<close> say the
  same of the copy of one source directory.
\<close>

fun read_fails :: "nat gen \<Rightarrow> bool" where
  "read_fails Stop = False"
| "read_fails Raise = True"
| "read_fails (Yield n g) = (if n = 0 then False else read_fails g)"

fun chunk_ops :: "string \<Rightarrow> nat gen \<Rightarrow> fs_op list" where
  "chunk_ops dst Stop = []"
| "chunk_ops dst Raise = []"
| "chunk_ops dst (Yield n g) = (if n = 0 then [] else WriteChunk dst n # chunk_ops dst g)"

definition job_fails :: "copy_job \<Rightarrow> bool" where
  "job_fails job = (\<not> (openable job \<and> \<not> read_fails (reads job) \<and> copystat_ok job))"

definition job_ops :: "copy_job \<Rightarrow> fs_op list" where
  "job_ops job =
     (if \<not> openable job then []
      else OpenWrite (job_dst job) # chunk_ops (job_dst job) (reads job)
           @ (if job_fails job then [] else [CopyStat (job_dst job)]))"

definition source_fails :: "os_env \<Rightarrow> string \<Rightarrow> string \<Rightarrow> bool" where
  "source_fails env dest_path src_path =
     (let plan = tree_jobs env src_path (path_join dest_path (basename src_path))
      in \<not> (makedirs_ok plan \<and> list_all (\<lambda>job. \<not> job_fails job) (jobs plan)))"

definition source_ops :: "os_env \<Rightarrow> string \<Rightarrow> string \<Rightarrow> fs_op list" where
  "source_ops env dest_path src_path =
     (let target = path_join dest_path (basename src_path);
          plan = tree_jobs env src_path target
      in if \<not> makedirs_ok plan then []
         else MakeDirs target # concat (map job_ops (jobs plan)))"

text \<open>The result of a copy function without the progress signals.\<close>

definition drop_events :: "'r \<times> event list \<times> fs_op list \<times> scanner \<Rightarrow> 'r \<times> fs_op list \<times> scanner" where
  "drop_events x = (fst x, fst (snd (snd x)), snd (snd (snd x)))"

text \<open>
  Three source directories for the examples. \<open>/src/a\<close> holds one good file; in \<open>/src/b\<close>
  the second of three files breaks after 5 bytes; \<open>/src/c\<close> holds one good file.
\<close>

definition backup_example_env :: os_env where
  "backup_example_env =
     \<lparr>walk = (\<lambda>p. Stop),
      scandir = (\<lambda>p. Stop),
      stat = (\<lambda>p. None),
      lstat = (\<lambda>p. None),
      tree_jobs = (\<lambda>src target.
        if src = ''/src/a'' then
          \<lparr>makedirs_ok = True,
           jobs = [\<lparr>job_src = ''/src/a/x'', job_dst = ''/backup/a/x'', openable = True,
                    reads = gen_of_list [8192, 100], copystat_ok = True\<rparr>]\<rparr>
        else if src = ''/src/b'' then
          \<lparr>makedirs_ok = True,
           jobs = [\<lparr>job_src = ''/src/b/y1'', job_dst = ''/backup/b/y1'', openable = True,
                    reads = gen_of_list [10], copystat_ok = True\<rparr>,
                   \<lparr>job_src = ''/src/b/y2'', job_dst = ''/backup/b/y2'', openable = True,
                    reads = Yield 5 Raise, copystat_ok = True\<rparr>,
                   \<lparr>job_src = ''/src/b/y3'', job_dst = ''/backup/b/y3'', openable = True,
                    reads = gen_of_list [7], copystat_ok = True\<rparr>]\<rparr>
        else
          \<lparr>makedirs_ok = True,
           jobs = [\<lparr>job_src = ''/src/c/z'', job_dst = ''/backup/c/z'', openable = True,
                    reads = gen_of_list [1], copystat_ok = True\<rparr>]\<rparr>)\<rparr>"

section \<open>Properties\<close>

subsection \<open>Formatting a size\<close>









subsection \<open>The stop flag\<close>

lemma poll_stopped: "stopped s \<Longrightarrow> fst (poll s) \<and> stopped (snd (poll s))"
  by (simp add: poll_def stop_def split: list.splits)

lemma poll_result: "poll s = (st, s1) \<Longrightarrow> stopped s1 = st"
  by (auto simp: poll_def stop_def Let_def split: list.splits if_splits)

subsection \<open>The calculation\<close>

lemma total_size_simps [simp]:
  "total_size env [] = 0"
  "total_size env (p # ps) = (case getsize env p of None \<Rightarrow> 0 | Some n \<Rightarrow> n) + total_size env ps"
  "total_size env (ps @ qs) = total_size env ps + total_size env qs"
  by (simp_all add: total_size_def)

lemma readable_count_simps [simp]:
  "readable_count env [] = 0"
  "readable_count env (p # ps) = (case getsize env p of None \<Rightarrow> 0 | Some n \<Rightarrow> 1) + readable_count env ps"
  "readable_count env (ps @ qs) = readable_count env ps + readable_count env qs"
  by (simp_all add: readable_count_def split: option.splits)

lemma files_in_append [simp]: "files_in (xs @ ys) = files_in xs @ files_in ys"
  by (induction xs rule: files_in.induct) simp_all

lemma files_in_map_Some [simp]: "files_in (map (\<lambda>x. Some (f x)) xs) = map f xs"
  by (induction xs) simp_all

lemma poll_quiet: "quiet s \<Longrightarrow> \<exists>s'. poll s = (False, s') \<and> quiet s'"
  by (cases "stop_calls s") (auto simp: quiet_def poll_def stop_def Let_def)

lemma files_loop_quiet:
  "quiet s \<Longrightarrow> \<exists>s'. files_loop env r fs (t, c) s
      = ((t + total_size env (map (path_join r) fs), c + readable_count env (map (path_join r) fs)), s')
      \<and> quiet s'"
proof (induction fs arbitrary: t c s)
  case Nil
  then show ?case by simp
next
  case (Cons f fs)
  from poll_quiet[OF Cons.prems] obtain s1 where p: "poll s = (False, s1)" and q: "quiet s1"
    by blast
  show ?case
  proof (cases "getsize env (path_join r f)")
    case None
    with Cons.IH[OF q, of t c] p show ?thesis by auto
  next
    case (Some n)
    with Cons.IH[OF q, of "t + n" "c + 1"] p show ?thesis by (auto simp: add.assoc)
  qed
qed

lemma walk_loop_quiet:
  "quiet s \<Longrightarrow> \<exists>s'. walk_loop env g (t, c) s
      = ((if raises g then None
          else Some (t + total_size env (walked_files g), c + readable_count env (walked_files g))), s')
      \<and> quiet s'"
proof (induction g arbitrary: t c s)
  case (Yield x g)
  obtain r dirs fs where x: "x = (r, dirs, fs)" by (cases x)
  from poll_quiet[OF Yield.prems] obtain s1 where p: "poll s = (False, s1)" and q: "quiet s1"
    by blast
  from files_loop_quiet[OF q, of env r fs t c] obtain s2 where
    f: "files_loop env r fs (t, c) s1
      = ((t + total_size env (map (path_join r) fs), c + readable_count env (map (path_join r) fs)), s2)"
    and q2: "quiet s2" by blast
  from Yield.IH[OF q2, of "t + total_size env (map (path_join r) fs)"
      "c + readable_count env (map (path_join r) fs)"] x p f
  show ?case by (auto simp: add.assoc)
qed simp_all

lemma calculate_directory_info_quiet:
  assumes "quiet s"
  shows "\<exists>s'. calculate_directory_info env item s
      = ((if raises (walk env (path item)) then item\<lparr>status := CalcError\<rparr>
          else item\<lparr>size_f := Some (total_size env (walked_files (walk env (path item)))),
                    file_count := Some (readable_count env (walked_files (walk env (path item)))),
                    status := Computed\<rparr>), s')
      \<and> quiet s'"
proof -
  from walk_loop_quiet[OF assms, of env "walk env (path item)" 0 0] obtain s1 where
    w: "walk_loop env (walk env (path item)) (0, 0) s
      = ((if raises (walk env (path item)) then None
          else Some (0 + total_size env (walked_files (walk env (path item))),
                     0 + readable_count env (walked_files (walk env (path item))))), s1)"
    and q: "quiet s1" by blast
  from poll_quiet[OF q] obtain s2 where p: "poll s1 = (False, s2)" and q2: "quiet s2" by blast
  show ?thesis
  proof (cases "raises (walk env (path item))")
    case True
    with w q show ?thesis by (auto simp: calculate_directory_info_def)
  next
    case False
    with w p q2 show ?thesis by (auto simp: calculate_directory_info_def)
  qed
qed

lemma poll_cancel_now:
  "\<not> stopped s \<Longrightarrow> stop_calls s = True # rest \<Longrightarrow> \<exists>s'. poll s = (True, s') \<and> stopped s'"
  by (simp add: poll_def stop_def)

lemma poll_cancel_later:
  "\<not> stopped s \<Longrightarrow> stop_calls s = False # cs \<Longrightarrow>
     \<exists>s'. poll s = (False, s') \<and> \<not> stopped s' \<and> stop_calls s' = cs"
  by (simp add: poll_def stop_def)

lemma poll_stopped_ex: "stopped s \<Longrightarrow> \<exists>s'. poll s = (True, s') \<and> stopped s'"
  using poll_stopped[of s] by (cases "poll s") auto

lemma files_loop_stopped:
  "stopped s \<Longrightarrow> \<exists>s'. files_loop env r fs acc s = (acc, s') \<and> stopped s'"
proof (cases fs)
  case (Cons f fs')
  assume "stopped s"
  from poll_stopped_ex[OF this] Cons show ?thesis by auto
qed simp

lemma walk_loop_stopped:
  "stopped s \<Longrightarrow> \<not> raises g \<Longrightarrow> \<exists>s'. walk_loop env g acc s = (Some acc, s') \<and> stopped s'"
proof (cases g)
  case (Yield x g')
  assume "stopped s"
  from poll_stopped_ex[OF this] Yield show ?thesis by (cases x) auto
qed simp_all

lemma files_loop_cancel:
  assumes "\<not> stopped s" and "stop_calls s = replicate k False @ True # rest"
  shows "\<exists>s'. files_loop env r fs (t, c) s
      = ((t + total_size env (take k (map (path_join r) fs)),
          c + readable_count env (take k (map (path_join r) fs))), s')
      \<and> (if k < length fs then stopped s'
         else \<not> stopped s' \<and> stop_calls s' = replicate (k - length fs) False @ True # rest)"
  using assms
proof (induction fs arbitrary: t c s k)
  case Nil
  then show ?case by simp
next
  case (Cons f fs)
  show ?case
  proof (cases k)
    case 0
    with Cons.prems have "stop_calls s = True # rest" by simp
    from poll_cancel_now[OF Cons.prems(1) this] 0 show ?thesis by auto
  next
    case (Suc k')
    with Cons.prems have "stop_calls s = False # (replicate k' False @ True # rest)" by simp
    from poll_cancel_later[OF Cons.prems(1) this] obtain s1 where
      p: "poll s = (False, s1)" and n1: "\<not> stopped s1"
      and c1: "stop_calls s1 = replicate k' False @ True # rest" by blast
    show ?thesis
    proof (cases "getsize env (path_join r f)")
      case None
      with Cons.IH[OF n1 c1, of t c] p Suc show ?thesis by auto
    next
      case (Some n)
      with Cons.IH[OF n1 c1, of "t + n" "c + 1"] p Suc show ?thesis by (auto simp: add.assoc)
    qed
  qed
qed

lemma walk_loop_cancel:
  assumes "\<not> raises g" and "\<not> stopped s" and "stop_calls s = replicate k False @ True # rest"
  shows "\<exists>s'. walk_loop env g (t, c) s
      = (Some (t + total_size env (files_in (take k (checkpoints g))),
               c + readable_count env (files_in (take k (checkpoints g)))), s')
      \<and> (if k < length (checkpoints g) then stopped s'
         else \<not> stopped s' \<and>
              stop_calls s' = replicate (k - length (checkpoints g)) False @ True # rest)"
  using assms
proof (induction g arbitrary: t c s k)
  case Stop
  then show ?case by simp
next
  case Raise
  then show ?case by simp
next
  case (Yield x g)
  obtain r dirs fs where x: "x = (r, dirs, fs)" by (cases x)
  from Yield.prems(1) have nr: "\<not> raises g" by simp
  show ?case
  proof (cases k)
    case 0
    with Yield.prems have "stop_calls s = True # rest" by simp
    from poll_cancel_now[OF Yield.prems(2) this] 0 x show ?thesis by auto
  next
    case (Suc k')
    with Yield.prems have "stop_calls s = False # (replicate k' False @ True # rest)" by simp
    from poll_cancel_later[OF Yield.prems(2) this] obtain s1 where
      p: "poll s = (False, s1)" and n1: "\<not> stopped s1"
      and c1: "stop_calls s1 = replicate k' False @ True # rest" by blast
    let ?ps = "map (path_join r) fs"
    from files_loop_cancel[OF n1 c1, of env r fs t c] obtain s2 where
      f: "files_loop env r fs (t, c) s1
        = ((t + total_size env (take k' ?ps), c + readable_count env (take k' ?ps)), s2)"
      and s2: "if k' < length fs then stopped s2
         else \<not> stopped s2 \<and> stop_calls s2 = replicate (k' - length fs) False @ True # rest"
      by blast
    have cps: "checkpoints (Yield x g) = None # map (\<lambda>file. Some (path_join r file)) fs @ checkpoints g"
      by (simp add: x)
    show ?thesis
    proof (cases "k' < length fs")
      case True
      with s2 have st: "stopped s2" by simp
      from walk_loop_stopped[OF st nr] obtain s3 where
        w: "walk_loop env g (t + total_size env (take k' ?ps), c + readable_count env (take k' ?ps)) s2
          = (Some (t + total_size env (take k' ?ps), c + readable_count env (take k' ?ps)), s3)"
        and st3: "stopped s3" by blast
      have "files_in (take k (checkpoints (Yield x g))) = take k' ?ps"
        using True by (simp add: cps Suc take_map del: checkpoints.simps)
      moreover have "k < length (checkpoints (Yield x g))" using True by (simp add: cps Suc)
      ultimately show ?thesis using p f w st3 x by (auto simp del: checkpoints.simps)
    next
      case False
      with s2 have n2: "\<not> stopped s2"
        and c2: "stop_calls s2 = replicate (k' - length fs) False @ True # rest" by simp_all
      from False have tk: "take k' ?ps = ?ps" by simp
      from Yield.IH[OF nr n2 c2, of "t + total_size env ?ps" "c + readable_count env ?ps"]
      obtain s3 where
        w: "walk_loop env g (t + total_size env ?ps, c + readable_count env ?ps) s2
          = (Some (t + total_size env ?ps
                     + total_size env (files_in (take (k' - length fs) (checkpoints g))),
                   c + readable_count env ?ps
                     + readable_count env (files_in (take (k' - length fs) (checkpoints g)))), s3)"
        and s3: "if k' - length fs < length (checkpoints g) then stopped s3
           else \<not> stopped s3 \<and>
             stop_calls s3 = replicate (k' - length fs - length (checkpoints g)) False @ True # rest"
        by blast
      have fi: "files_in (take k (checkpoints (Yield x g)))
          = ?ps @ files_in (take (k' - length fs) (checkpoints g))"
        using False by (simp add: cps Suc del: checkpoints.simps)
      have lt: "k < length (checkpoints (Yield x g)) \<longleftrightarrow> k' - length fs < length (checkpoints g)"
        using False by (auto simp add: cps Suc simp del: checkpoints.simps)
      have df: "k - length (checkpoints (Yield x g)) = k' - length fs - length (checkpoints g)"
        by (simp add: cps Suc del: checkpoints.simps)
      from p f w x tk have "walk_loop env (Yield x g) (t, c) s
          = (Some (t + total_size env ?ps
                     + total_size env (files_in (take (k' - length fs) (checkpoints g))),
                   c + readable_count env ?ps
                     + readable_count env (files_in (take (k' - length fs) (checkpoints g)))), s3)"
        by simp
      then show ?thesis using s3 unfolding fi lt df
        by (auto simp: add.assoc simp del: checkpoints.simps)
    qed
  qed
qed

lemma calculate_directory_info_cancel:
  assumes "\<not> raises (walk env (path item))" and "\<not> stopped s"
    and "stop_calls s = replicate k False @ True # rest"
    and "k \<le> length (checkpoints (walk env (path item)))"
  shows "fst (calculate_directory_info env item s)
      = item\<lparr>size_f := Some (total_size env (files_in (take k (checkpoints (walk env (path item)))))),
              file_count := Some (readable_count env (files_in (take k (checkpoints (walk env (path item)))))),
              status := Cancelled\<rparr>"
proof -
  let ?g = "walk env (path item)"
  from walk_loop_cancel[OF assms(1,2,3), of env 0 0] obtain s1 where
    w: "walk_loop env ?g (0, 0) s
      = (Some (0 + total_size env (files_in (take k (checkpoints ?g))),
               0 + readable_count env (files_in (take k (checkpoints ?g)))), s1)"
    and s1: "if k < length (checkpoints ?g) then stopped s1
       else \<not> stopped s1 \<and> stop_calls s1 = replicate (k - length (checkpoints ?g)) False @ True # rest"
    by blast
  have "\<exists>s2. poll s1 = (True, s2)"
  proof (cases "k < length (checkpoints ?g)")
    case True
    with s1 poll_stopped_ex[of s1] show ?thesis by auto
  next
    case False
    with assms(4) have "k - length (checkpoints ?g) = 0" by simp
    with s1 False have "\<not> stopped s1" and "stop_calls s1 = True # rest" by simp_all
    from poll_cancel_now[OF this] show ?thesis by blast
  qed
  then obtain s2 where "poll s1 = (True, s2)" by blast
  with w show ?thesis by (simp add: calculate_directory_info_def)
qed

lemma calculate_directory_info_status:
  "status (fst (calculate_directory_info env item s)) \<noteq> NotComputed \<and>
   (status (fst (calculate_directory_info env item s)) = CalcError \<longrightarrow>
      fst (calculate_directory_info env item s) = item\<lparr>status := CalcError\<rparr>) \<and>
   (status (fst (calculate_directory_info env item s)) \<noteq> CalcError \<longrightarrow>
      size_f (fst (calculate_directory_info env item s)) \<noteq> None \<and>
      file_count (fst (calculate_directory_info env item s)) \<noteq> None)"
  by (auto simp: calculate_directory_info_def split: prod.splits option.splits)

lemma calc_quiet_indep:
  "quiet s \<Longrightarrow> quiet s' \<Longrightarrow>
     fst (calculate_directory_info env item s) = fst (calculate_directory_info env item s')"
  using calculate_directory_info_quiet[of s env item] calculate_directory_info_quiet[of s' env item]
  by auto

lemma calculate_loop_quiet:
  assumes "quiet s"
  shows "\<exists>s'. calculate_loop env items i n s
      = (map (\<lambda>(j, it). CalcProgress it j n)
           (zip [i..<i + length items]
              (map (\<lambda>item. fst (calculate_directory_info env item s)) items)),
         map (\<lambda>item. fst (calculate_directory_info env item s)) items, s')
      \<and> quiet s'"
  using assms
proof (induction items arbitrary: i s)
  case Nil
  then show ?case by simp
next
  case (Cons item items)
  from poll_quiet[OF Cons.prems] obtain s1 where p: "poll s = (False, s1)" and q1: "quiet s1"
    by blast
  obtain item' s2 where c: "calculate_directory_info env item s1 = (item', s2)"
    by (cases "calculate_directory_info env item s1")
  from calculate_directory_info_quiet[OF q1, of env item] c have q2: "quiet s2" by auto
  have i': "item' = fst (calculate_directory_info env item s)"
    using calc_quiet_indep[OF q1 Cons.prems, of env item] c by simp
  have same: "map (\<lambda>item. fst (calculate_directory_info env item s2)) items
      = map (\<lambda>item. fst (calculate_directory_info env item s)) items"
    using calc_quiet_indep[OF q2 Cons.prems] by simp
  from Cons.IH[OF q2, of "i + 1"] obtain s3 where
    l: "calculate_loop env items (i + 1) n s2
      = (map (\<lambda>(j, it). CalcProgress it j n)
           (zip [i + 1..<i + 1 + length items]
              (map (\<lambda>item. fst (calculate_directory_info env item s2)) items)),
         map (\<lambda>item. fst (calculate_directory_info env item s2)) items, s3)"
    and q3: "quiet s3" by blast
  have upt: "[i..<i + length (item # items)] = i # [i + 1..<i + 1 + length items]"
    by (simp add: upt_conv_Cons del: upt_Suc)
  show ?case using p c l q3 i' unfolding upt same by simp
qed

lemmas calc_eval =
  calculate_directory_info_def poll_def stop_def getsize_def path_join_def FileItem_def quiet_def

text \<open>
  C1, as the claim states it, fails: in \<open>/d\<close>, one file of 5 bytes with two names, the
  calculation stores 10 bytes and 2 files, where the tree holds one regular file of 5
  bytes. And where \<open>/d\<close> holds nothing but a symbolic link to a file of 1000 bytes
  elsewhere, the calculation stores 1000 bytes and 1 file for a tree without a regular
  file.
\<close>

theorem hard_links_counted_per_name:
  "fst (calculate_directory_info hardlink_env (FileItem ''d'' ''/d'' True)
          \<lparr>stopped = False, stop_calls = []\<rparr>)
     = (FileItem ''d'' ''/d'' True)\<lparr>size_f := Some 10, file_count := Some 2, status := Computed\<rparr> \<and>
   sum_list (map st_size (regular_files hardlink_env (walked_files (walk hardlink_env ''/d'')))) = 5 \<and>
   length (regular_files hardlink_env (walked_files (walk hardlink_env ''/d''))) = 1 \<and>
   fst (calculate_directory_info symlink_env (FileItem ''d'' ''/d'' True)
          \<lparr>stopped = False, stop_calls = []\<rparr>)
     = (FileItem ''d'' ''/d'' True)\<lparr>size_f := Some 1000, file_count := Some 1, status := Computed\<rparr> \<and>
   regular_files symlink_env (walked_files (walk symlink_env ''/d'')) = []"
  by (simp add: calc_eval hardlink_env_def symlink_env_def regular_files_def List.map_filter_def)

text \<open>
  C1, amended. When no stop is requested and the walk raises no exception,
  \<open>calculate_directory_info\<close> sets the size to the sum of \<open>os.path.getsize\<close> over every
  file entry that \<open>os.walk\<close> lists, name by name (a file with several names is added once
  for each of them), leaving out the entries whose size cannot be read; it sets the file
  count to the number of the entries added, and the status to computed.
\<close>

theorem calculate_directory_info_sums_every_name:
  assumes "quiet s" and "\<not> raises (walk env (path item))"
  shows "fst (calculate_directory_info env item s)
      = item\<lparr>size_f := Some (total_size env (walked_files (walk env (path item)))),
              file_count := Some (readable_count env (walked_files (walk env (path item)))),
              status := Computed\<rparr>"
  using calculate_directory_info_quiet[OF assms(1), of env item] assms(2) by auto

theorem calculate_directory_info_sums_every_name_witness:
  "quiet \<lparr>stopped = False, stop_calls = [False, False]\<rparr> \<and>
   \<not> raises (walk calc_example_env (path (FileItem ''data'' ''/data'' True))) \<and>
   fst (calculate_directory_info calc_example_env (FileItem ''data'' ''/data'' True)
          \<lparr>stopped = False, stop_calls = [False, False]\<rparr>)
     = (FileItem ''data'' ''/data'' True)\<lparr>size_f := Some 7, file_count := Some 2, status := Computed\<rparr>"
proof -
  let ?s = "\<lparr>stopped = False, stop_calls = [False, False]\<rparr>"
  let ?item = "FileItem ''data'' ''/data'' True"
  have q: "quiet ?s" by (simp add: quiet_def)
  have r: "\<not> raises (walk calc_example_env (path ?item))"
    by (simp add: calc_example_env_def FileItem_def)
  have "fst (calculate_directory_info calc_example_env ?item ?s)
      = ?item\<lparr>size_f := Some (total_size calc_example_env (walked_files (walk calc_example_env (path ?item)))),
               file_count := Some (readable_count calc_example_env (walked_files (walk calc_example_env (path ?item)))),
               status := Computed\<rparr>"
    using calculate_directory_info_sums_every_name[OF q r] .
  also have "\<dots> = ?item\<lparr>size_f := Some 7, file_count := Some 2, status := Computed\<rparr>"
    by (simp add: calc_example_env_def FileItem_def getsize_def path_join_def)
  finally show ?thesis using q r by simp
qed

text \<open>
  C2, as the claim states it, fails: in \<open>/data\<close>, with the stop requested just before the
  check of the second file, the entry ends cancelled with the size and the count of the
  first file written into it.
\<close>

theorem cancelled_entry_keeps_partial_sums:
  "fst (calculate_directory_info calc_example_env (FileItem ''data'' ''/data'' True)
          \<lparr>stopped = False, stop_calls = [False, False, True]\<rparr>)
     = (FileItem ''data'' ''/data'' True)\<lparr>size_f := Some 3, file_count := Some 1, status := Cancelled\<rparr>"
  by (simp add: calc_eval calc_example_env_def)

text \<open>
  C2, amended. When the walk raises no exception and a stop is requested before the
  \<open>k\<close>-th read of the flag (counted from 0, the last read being the one of line 83), the
  entry ends with the cancelled status, and its size and file count are set to the sums
  over the files whose check came before the request: the partial sums are written.
\<close>

theorem cancellation_writes_partial_sums:
  assumes "\<not> raises (walk env (path item))" and "\<not> stopped s"
    and "stop_calls s = replicate k False @ True # rest"
    and "k \<le> length (checkpoints (walk env (path item)))"
  shows "fst (calculate_directory_info env item s)
      = item\<lparr>size_f := Some (total_size env (files_in (take k (checkpoints (walk env (path item)))))),
              file_count := Some (readable_count env (files_in (take k (checkpoints (walk env (path item)))))),
              status := Cancelled\<rparr>"
  using assms by (rule calculate_directory_info_cancel)

theorem cancellation_writes_partial_sums_witness:
  "\<not> raises (walk calc_example_env (path (FileItem ''data'' ''/data'' True))) \<and>
   \<not> stopped \<lparr>stopped = False, stop_calls = [False, False, False, True, False]\<rparr> \<and>
   stop_calls \<lparr>stopped = False, stop_calls = [False, False, False, True, False]\<rparr>
     = replicate 3 False @ True # [False] \<and>
   3 \<le> length (checkpoints (walk calc_example_env (path (FileItem ''data'' ''/data'' True)))) \<and>
   fst (calculate_directory_info calc_example_env (FileItem ''data'' ''/data'' True)
          \<lparr>stopped = False, stop_calls = [False, False, False, True, False]\<rparr>)
     = (FileItem ''data'' ''/data'' True)\<lparr>size_f := Some 7, file_count := Some 2, status := Cancelled\<rparr>"
proof -
  let ?s = "\<lparr>stopped = False, stop_calls = [False, False, False, True, False]\<rparr>"
  let ?item = "FileItem ''data'' ''/data'' True"
  have r: "\<not> raises (walk calc_example_env (path ?item))"
    by (simp add: calc_example_env_def FileItem_def)
  have n: "\<not> stopped ?s" by simp
  have c: "stop_calls ?s = replicate 3 False @ True # [False]" by (simp add: numeral_3_eq_3)
  have k: "3 \<le> length (checkpoints (walk calc_example_env (path ?item)))"
    by (simp add: calc_example_env_def FileItem_def)
  have "fst (calculate_directory_info calc_example_env ?item ?s)
      = ?item\<lparr>size_f := Some (total_size calc_example_env
                  (files_in (take 3 (checkpoints (walk calc_example_env (path ?item)))))),
               file_count := Some (readable_count calc_example_env
                  (files_in (take 3 (checkpoints (walk calc_example_env (path ?item)))))),
               status := Cancelled\<rparr>"
    using cancellation_writes_partial_sums[OF r n c k] .
  also have "\<dots> = ?item\<lparr>size_f := Some 7, file_count := Some 2, status := Cancelled\<rparr>"
    by (simp add: calc_example_env_def FileItem_def getsize_def path_join_def numeral_3_eq_3)
  finally show ?thesis using r n c k by simp
qed

text \<open>
  C7, as the claim states it, fails: for the link \<open>/d/l\<close>, 6 bytes long itself, to a file
  of 1000 bytes, the calculation stores 1000 bytes.
\<close>

theorem symlink_contributes_target_size:
  "size_f (fst (calculate_directory_info symlink_env (FileItem ''d'' ''/d'' True)
                  \<lparr>stopped = False, stop_calls = []\<rparr>)) = Some 1000 \<and>
   map_option st_kind (lstat symlink_env ''/d/l'') = Some S_IFLNK \<and>
   map_option st_size (lstat symlink_env ''/d/l'') = Some 6 \<and>
   map_option st_size (stat symlink_env ''/d/l'') = Some 1000"
  by (simp add: calc_eval symlink_env_def)

text \<open>
  C7, amended. A file entry, symbolic link or not, contributes the size that \<open>os.stat\<close>
  reports for its path, which for a link is the size of the target, and counts as one
  file; when \<open>os.stat\<close> fails, as for a dangling link, it contributes nothing and is not
  counted. What \<open>os.lstat\<close> would report about the link itself has no influence. The
  directory names of a triple, among them the links to directories, are never looked at by
  the calculation.
\<close>

theorem symlinks_resolved_by_getsize:
  "(\<not> fst (poll s) \<longrightarrow>
      files_loop env root_d [file] (total_size', count) s
        = ((case stat env (path_join root_d file) of
              None \<Rightarrow> (total_size', count)
            | Some target \<Rightarrow> (total_size' + st_size target, count + 1)), snd (poll s))) \<and>
   calculate_directory_info (env\<lparr>lstat := l\<rparr>) item s = calculate_directory_info env item s \<and>
   walk_loop env (Yield (root_d, dirs, files) g) acc s
     = walk_loop env (Yield (root_d, [], files) g) acc s"
proof -
  have gs: "getsize (env\<lparr>lstat := l\<rparr>) q = getsize env q" for q
    by (simp add: getsize_def)
  have fl: "files_loop (env\<lparr>lstat := l\<rparr>) r fs a st = files_loop env r fs a st" for r fs a st
    by (induction fs arbitrary: a st) (simp_all add: gs split: prod.splits option.splits)
  have wl: "walk_loop (env\<lparr>lstat := l\<rparr>) w a st = walk_loop env w a st" for w a st
  proof (induction w arbitrary: a st)
    case (Yield x w)
    then show ?case by (cases x) (simp add: fl split: prod.splits)
  qed simp_all
  have "calculate_directory_info (env\<lparr>lstat := l\<rparr>) item s = calculate_directory_info env item s"
    by (simp add: calculate_directory_info_def wl)
  then show ?thesis
    by (auto simp: getsize_def split: prod.splits option.splits)
qed

theorem symlinks_resolved_by_getsize_witness:
  "\<not> fst (poll \<lparr>stopped = False, stop_calls = []\<rparr>) \<and>
   files_loop symlink_env ''/d'' [''l''] (0, 0) \<lparr>stopped = False, stop_calls = []\<rparr>
     = ((1000, 1), \<lparr>stopped = False, stop_calls = []\<rparr>)"
proof -
  let ?s = "\<lparr>stopped = False, stop_calls = []\<rparr>"
  have h: "\<not> fst (poll ?s)" by (simp add: poll_def)
  with symlinks_resolved_by_getsize[of ?s symlink_env "''/d''" "''l''" 0 0]
  have "files_loop symlink_env ''/d'' [''l''] (0, 0) ?s
      = ((case stat symlink_env (path_join ''/d'' ''l'') of
            None \<Rightarrow> (0, 0)
          | Some target \<Rightarrow> (0 + st_size target, 0 + 1)), snd (poll ?s))"
    by blast
  also have "\<dots> = ((1000, 1), ?s)"
    by (simp add: symlink_env_def path_join_def poll_def)
  finally show ?thesis using h by simp
qed

text \<open>
  C4, as the claim states it, fails. An entry that \<open>scan_directory\<close> has just created has
  no size but the file count 0; and an entry leaves the computed status for the cancelled
  one when it is computed again, with no reset in between.
\<close>

theorem fresh_entry_and_direct_recomputation:
  "size_f (FileItem ''data'' ''/data'' True) = None \<and>
   file_count (FileItem ''data'' ''/data'' True) = Some 0 \<and>
   status (fst (calculate_directory_info calc_example_env (FileItem ''data'' ''/data'' True)
                  \<lparr>stopped = False, stop_calls = []\<rparr>)) = Computed \<and>
   status (fst (calculate_directory_info calc_example_env
                  (fst (calculate_directory_info calc_example_env (FileItem ''data'' ''/data'' True)
                          \<lparr>stopped = False, stop_calls = []\<rparr>))
                  \<lparr>stopped = False, stop_calls = [True]\<rparr>)) = Cancelled"
  by (simp add: calc_eval calc_example_env_def)

text \<open>
  C4, amended. An entry created by the enumeration has the not-computed status and no
  size. \<open>calculate_directory_info\<close> never stores the not-computed status: whatever the
  status was, it becomes computed, cancelled or error, with no reset step. When it becomes
  computed or cancelled, the size and the file count are both set; when it becomes error,
  nothing but the status changes.
\<close>

theorem file_item_lifecycle:
  "status (FileItem n p d) = NotComputed \<and> size_f (FileItem n p d) = None \<and>
   status (fst (calculate_directory_info env item s)) \<noteq> NotComputed \<and>
   (status (fst (calculate_directory_info env item s)) = CalcError \<longrightarrow>
      fst (calculate_directory_info env item s) = item\<lparr>status := CalcError\<rparr>) \<and>
   (status (fst (calculate_directory_info env item s)) \<noteq> CalcError \<longrightarrow>
      size_f (fst (calculate_directory_info env item s)) \<noteq> None \<and>
      file_count (fst (calculate_directory_info env item s)) \<noteq> None)"
  using calculate_directory_info_status[of env item s] by (simp add: FileItem_def)

theorem file_item_lifecycle_witness:
  "status (fst (calculate_directory_info calc_example_env (FileItem ''broken'' ''/broken'' True)
                  \<lparr>stopped = False, stop_calls = []\<rparr>)) = CalcError \<and>
   fst (calculate_directory_info calc_example_env (FileItem ''broken'' ''/broken'' True)
          \<lparr>stopped = False, stop_calls = []\<rparr>)
     = (FileItem ''broken'' ''/broken'' True)\<lparr>status := CalcError\<rparr> \<and>
   status (fst (calculate_directory_info calc_example_env (FileItem ''data'' ''/data'' True)
                  \<lparr>stopped = False, stop_calls = []\<rparr>)) \<noteq> CalcError \<and>
   size_f (fst (calculate_directory_info calc_example_env (FileItem ''data'' ''/data'' True)
                  \<lparr>stopped = False, stop_calls = []\<rparr>)) \<noteq> None \<and>
   file_count (fst (calculate_directory_info calc_example_env (FileItem ''data'' ''/data'' True)
                  \<lparr>stopped = False, stop_calls = []\<rparr>)) \<noteq> None"
proof -
  let ?s = "\<lparr>stopped = False, stop_calls = []\<rparr>"
  have h1: "status (fst (calculate_directory_info calc_example_env
      (FileItem ''broken'' ''/broken'' True) ?s)) = CalcError"
    by (simp add: calc_eval calc_example_env_def)
  have h2: "status (fst (calculate_directory_info calc_example_env
      (FileItem ''data'' ''/data'' True) ?s)) \<noteq> CalcError"
    by (simp add: calc_eval calc_example_env_def)
  from h1 file_item_lifecycle[of "''broken''" "''/broken''" True calc_example_env
      "FileItem ''broken'' ''/broken'' True" ?s]
  have c1: "fst (calculate_directory_info calc_example_env (FileItem ''broken'' ''/broken'' True) ?s)
      = (FileItem ''broken'' ''/broken'' True)\<lparr>status := CalcError\<rparr>"
    by blast
  from h2 file_item_lifecycle[of "''data''" "''/data''" True calc_example_env
      "FileItem ''data'' ''/data'' True" ?s]
  have c2: "size_f (fst (calculate_directory_info calc_example_env
        (FileItem ''data'' ''/data'' True) ?s)) \<noteq> None \<and>
      file_count (fst (calculate_directory_info calc_example_env
        (FileItem ''data'' ''/data'' True) ?s)) \<noteq> None"
    by blast
  from h1 h2 c1 c2 show ?thesis by (intro conjI) simp_all
qed

text \<open>
  C5, as the claim states it, fails. In the batch of \<open>/broken\<close> and \<open>/data\<close>, the entry of
  \<open>/broken\<close> ends with the error status and with the file count 0 that it had, not with
  an unset one; an entry that had a size and a count keeps them under the error status;
  and a batch that is cancelled emits the same \<open>finished\<close> signal as any other.
\<close>

theorem error_entry_keeps_its_values:
  "fst (snd (CalculateWorker_run calc_example_env
        [FileItem ''broken'' ''/broken'' True, FileItem ''data'' ''/data'' True]
        \<lparr>stopped = False, stop_calls = []\<rparr>))
     = [(FileItem ''broken'' ''/broken'' True)\<lparr>status := CalcError\<rparr>,
        (FileItem ''data'' ''/data'' True)\<lparr>size_f := Some 7, file_count := Some 2, status := Computed\<rparr>] \<and>
   file_count ((FileItem ''broken'' ''/broken'' True)\<lparr>status := CalcError\<rparr>) = Some 0 \<and>
   fst (calculate_directory_info calc_example_env
          ((FileItem ''broken'' ''/broken'' True)\<lparr>size_f := Some 7, file_count := Some 2, status := Computed\<rparr>)
          \<lparr>stopped = False, stop_calls = []\<rparr>)
     = (FileItem ''broken'' ''/broken'' True)\<lparr>size_f := Some 7, file_count := Some 2, status := CalcError\<rparr> \<and>
   fst (CalculateWorker_run calc_example_env
        [FileItem ''broken'' ''/broken'' True, FileItem ''data'' ''/data'' True]
        \<lparr>stopped = True, stop_calls = []\<rparr>) = [CalcFinished]"
  by (simp add: CalculateWorker_run_def calc_eval calc_example_env_def)

text \<open>
  C5, amended. When nobody cancels, the batch handles every entry, in order: an entry
  whose walk raises gets the error status and is otherwise left as it was, every other
  entry gets its sums and the computed status. One progress signal is emitted for each
  entry, numbered from 1, and the \<open>finished\<close> signal closes the batch. That signal has no
  argument; it closes the batch in every run, cancelled or not.
\<close>

theorem per_entry_error_keeps_batch_going:
  assumes "quiet s"
  shows "fst (snd (CalculateWorker_run env items s))
      = map (\<lambda>item.
               if raises (walk env (path item)) then item\<lparr>status := CalcError\<rparr>
               else item\<lparr>size_f := Some (total_size env (walked_files (walk env (path item)))),
                         file_count := Some (readable_count env (walked_files (walk env (path item)))),
                         status := Computed\<rparr>) items \<and>
    fst (CalculateWorker_run env items s)
      = map (\<lambda>(j, it). CalcProgress it j (length items))
          (zip [1..<1 + length items] (fst (snd (CalculateWorker_run env items s))))
        @ [CalcFinished] \<and>
    (\<exists>evs. fst (CalculateWorker_run env items s0) = evs @ [CalcFinished])"
proof -
  from calculate_loop_quiet[OF assms, of env items 1 "length items"] obtain s' where
    l: "calculate_loop env items 1 (length items) s
      = (map (\<lambda>(j, it). CalcProgress it j (length items))
           (zip [1..<1 + length items]
              (map (\<lambda>item. fst (calculate_directory_info env item s)) items)),
         map (\<lambda>item. fst (calculate_directory_info env item s)) items, s')"
    by blast
  have r: "fst (calculate_directory_info env item s)
      = (if raises (walk env (path item)) then item\<lparr>status := CalcError\<rparr>
         else item\<lparr>size_f := Some (total_size env (walked_files (walk env (path item)))),
                   file_count := Some (readable_count env (walked_files (walk env (path item)))),
                   status := Computed\<rparr>)" for item
    using calculate_directory_info_quiet[OF assms, of env item] by auto
  have a: "fst (snd (CalculateWorker_run env items s))
      = map (\<lambda>item. fst (calculate_directory_info env item s)) items"
    using l by (simp add: CalculateWorker_run_def)
  have b: "fst (CalculateWorker_run env items s)
      = map (\<lambda>(j, it). CalcProgress it j (length items))
          (zip [1..<1 + length items] (fst (snd (CalculateWorker_run env items s))))
        @ [CalcFinished]"
    unfolding a using l by (simp add: CalculateWorker_run_def)
  have c: "\<exists>evs. fst (CalculateWorker_run env items s0) = evs @ [CalcFinished]"
    by (simp add: CalculateWorker_run_def split: prod.splits)
  from a b c show ?thesis by (simp only: r)
qed

theorem per_entry_error_keeps_batch_going_witness:
  "quiet \<lparr>stopped = False, stop_calls = [False]\<rparr> \<and>
   fst (snd (CalculateWorker_run calc_example_env
        [FileItem ''broken'' ''/broken'' True, FileItem ''data'' ''/data'' True]
        \<lparr>stopped = False, stop_calls = [False]\<rparr>))
     = [(FileItem ''broken'' ''/broken'' True)\<lparr>status := CalcError\<rparr>,
        (FileItem ''data'' ''/data'' True)\<lparr>size_f := Some 7, file_count := Some 2, status := Computed\<rparr>] \<and>
   fst (CalculateWorker_run calc_example_env
        [FileItem ''broken'' ''/broken'' True, FileItem ''data'' ''/data'' True]
        \<lparr>stopped = False, stop_calls = [False]\<rparr>)
     = [CalcProgress ((FileItem ''broken'' ''/broken'' True)\<lparr>status := CalcError\<rparr>) 1 2,
        CalcProgress ((FileItem ''data'' ''/data'' True)\<lparr>size_f := Some 7, file_count := Some 2, status := Computed\<rparr>) 2 2,
        CalcFinished]"
proof -
  let ?s = "\<lparr>stopped = False, stop_calls = [False]\<rparr>"
  let ?items = "[FileItem ''broken'' ''/broken'' True, FileItem ''data'' ''/data'' True]"
  have q: "quiet ?s" by (simp add: quiet_def)
  note t = per_entry_error_keeps_batch_going[OF q, of calc_example_env ?items]
  from t have a: "fst (snd (CalculateWorker_run calc_example_env ?items ?s))
      = [(FileItem ''broken'' ''/broken'' True)\<lparr>status := CalcError\<rparr>,
         (FileItem ''data'' ''/data'' True)\<lparr>size_f := Some 7, file_count := Some 2, status := Computed\<rparr>]"
    by (simp add: calc_example_env_def FileItem_def getsize_def path_join_def)
  from t have "fst (CalculateWorker_run calc_example_env ?items ?s)
      = map (\<lambda>(j, it). CalcProgress it j (length ?items))
          (zip [1..<1 + length ?items] (fst (snd (CalculateWorker_run calc_example_env ?items ?s))))
        @ [CalcFinished]"
    by blast
  also have "\<dots> = [CalcProgress ((FileItem ''broken'' ''/broken'' True)\<lparr>status := CalcError\<rparr>) 1 2,
        CalcProgress ((FileItem ''data'' ''/data'' True)\<lparr>size_f := Some 7, file_count := Some 2, status := Computed\<rparr>) 2 2,
        CalcFinished]"
    unfolding a by (simp add: upt_rec)
  finally show ?thesis using q a by simp
qed

subsection \<open>The copy\<close>

lemma copy_chunks_quiet:
  "quiet s \<Longrightarrow> \<exists>evs s'. copy_chunks src dst g cur tot copied s
      = ((if read_fails g then Some OSError else None), evs, chunk_ops dst g, s') \<and> quiet s'"
proof (induction g arbitrary: copied s)
  case Stop
  from poll_quiet[OF Stop] show ?case by auto
next
  case Raise
  from poll_quiet[OF Raise] show ?case by auto
next
  case (Yield n g)
  from poll_quiet[OF Yield.prems] obtain s1 where p: "poll s = (False, s1)" and q: "quiet s1"
    by blast
  from Yield.IH[OF q, of "copied + int n"] p q show ?case by (auto split: prod.splits)
qed

lemma copy_with_progress_quiet:
  assumes "quiet s"
  shows "\<exists>evs s'. copy_with_progress job cur tot s
      = ((if job_fails job then Some OSError else None), evs, job_ops job, s') \<and> quiet s'"
proof (cases "openable job")
  case False
  with assms show ?thesis by (simp add: copy_with_progress_def job_fails_def job_ops_def)
next
  case True
  from copy_chunks_quiet[OF assms, of "job_src job" "job_dst job" "reads job" cur tot 0]
  obtain evs s' where
    c: "copy_chunks (job_src job) (job_dst job) (reads job) cur tot 0 s
      = ((if read_fails (reads job) then Some OSError else None), evs,
         chunk_ops (job_dst job) (reads job), s')"
    and q: "quiet s'" by blast
  with True show ?thesis
    by (auto simp: copy_with_progress_def job_fails_def job_ops_def)
qed

lemma copy2_chunks_eq:
  "copy2_chunks dst g = ((if read_fails g then Some OSError else None), chunk_ops dst g)"
  by (induction g) (auto split: prod.splits)

lemma copy2_eq: "copy2 job = ((if job_fails job then Some OSError else None), job_ops job)"
  by (auto simp: copy2_def copy2_chunks_eq job_fails_def job_ops_def)

lemma copy_function_quiet:
  assumes "quiet s"
  shows "\<exists>evs s'. copy_function cb job cur tot s
      = ((if job_fails job then Some OSError else None), evs, job_ops job, s') \<and> quiet s'"
proof (cases cb)
  case True
  with copy_with_progress_quiet[OF assms, of job cur tot] show ?thesis
    by (simp add: copy_function_def)
next
  case False
  with assms show ?thesis by (simp add: copy_function_def copy2_eq)
qed

lemma copytree_entries_quiet:
  "quiet s \<Longrightarrow> \<exists>evs s'. copytree_entries cb js cur tot errs s
      = ((if errs \<or> \<not> list_all (\<lambda>job. \<not> job_fails job) js then Some OSError else None),
         evs, concat (map job_ops js), s') \<and> quiet s'"
proof (induction js arbitrary: errs s)
  case Nil
  then show ?case by simp
next
  case (Cons job js)
  from copy_function_quiet[OF Cons.prems, of cb job cur tot] obtain evs s1 where
    c: "copy_function cb job cur tot s
      = ((if job_fails job then Some OSError else None), evs, job_ops job, s1)"
    and q: "quiet s1" by blast
  from Cons.IH[OF q, of "errs \<or> job_fails job"] obtain evs' s2 where
    r: "copytree_entries cb js cur tot (errs \<or> job_fails job) s1
      = ((if (errs \<or> job_fails job) \<or> \<not> list_all (\<lambda>job. \<not> job_fails job) js
          then Some OSError else None), evs', concat (map job_ops js), s2)"
    and q2: "quiet s2" by blast
  show ?case
  proof (cases "job_fails job")
    case True
    with c r q2 show ?thesis by auto
  next
    case False
    with c r q2 show ?thesis by auto
  qed
qed

lemma copytree_quiet:
  assumes "quiet s"
  shows "\<exists>evs s'. copytree env cb src (path_join dest (basename src)) cur tot s
      = ((if source_fails env dest src then Some OSError else None), evs,
         source_ops env dest src, s') \<and> quiet s'"
proof -
  let ?target = "path_join dest (basename src)"
  let ?plan = "tree_jobs env src ?target"
  show ?thesis
  proof (cases "makedirs_ok ?plan")
    case False
    with assms show ?thesis
      by (simp add: copytree_def source_fails_def source_ops_def Let_def)
  next
    case True
    from copytree_entries_quiet[OF assms, of cb "jobs ?plan" cur tot False] obtain evs s' where
      "copytree_entries cb (jobs ?plan) cur tot False s
        = ((if False \<or> \<not> list_all (\<lambda>job. \<not> job_fails job) (jobs ?plan)
            then Some OSError else None), evs, concat (map job_ops (jobs ?plan)), s')"
      and "quiet s'" by blast
    with True show ?thesis
      by (auto simp: copytree_def source_fails_def source_ops_def Let_def)
  qed
qed

lemma backup_loop_first_failure:
  assumes "quiet s" and "\<forall>b \<in> set earlier. \<not> source_fails env dest b"
    and "source_fails env dest src"
  shows "\<exists>evs s'. backup_loop env cb (earlier @ src # later) dest i tot s
      = (False, evs, concat (map (source_ops env dest) (earlier @ [src])), s')"
  using assms(1,2)
proof (induction earlier arbitrary: i s)
  case Nil
  from poll_quiet[OF Nil(1)] obtain s1 where p: "poll s = (False, s1)" and q: "quiet s1"
    by blast
  from copytree_quiet[OF q, of env cb src dest i tot] assms(3) p show ?case by auto
next
  case (Cons b earlier)
  from poll_quiet[OF Cons.prems(1)] obtain s1 where p: "poll s = (False, s1)" and q: "quiet s1"
    by blast
  from Cons.prems(2) have ok: "\<not> source_fails env dest b"
    and rest: "\<forall>b \<in> set earlier. \<not> source_fails env dest b" by simp_all
  from copytree_quiet[OF q, of env cb b dest i tot] ok obtain evs s2 where
    c: "copytree env cb b (path_join dest (basename b)) i tot s1
      = (None, evs, source_ops env dest b, s2)" and q2: "quiet s2" by auto
  from Cons.IH[OF q2 rest, of "i + 1"] obtain evs' s3 where
    "backup_loop env cb (earlier @ src # later) dest (i + 1) tot s2
      = (False, evs', concat (map (source_ops env dest) (earlier @ [src])), s3)" by blast
  with p c show ?case by auto
qed

lemma backup_loop_no_failure:
  assumes "quiet s" and "\<forall>b \<in> set srcs. \<not> source_fails env dest b"
  shows "\<exists>evs s'. backup_loop env cb srcs dest i tot s
      = (True, evs, concat (map (source_ops env dest) srcs), s')"
  using assms
proof (induction srcs arbitrary: i s)
  case Nil
  from poll_quiet[OF Nil(1)] show ?case by auto
next
  case (Cons b srcs)
  from poll_quiet[OF Cons.prems(1)] obtain s1 where p: "poll s = (False, s1)" and q: "quiet s1"
    by blast
  from Cons.prems(2) have ok: "\<not> source_fails env dest b"
    and rest: "\<forall>b \<in> set srcs. \<not> source_fails env dest b" by simp_all
  from copytree_quiet[OF q, of env cb b dest i tot] ok obtain evs s2 where
    c: "copytree env cb b (path_join dest (basename b)) i tot s1
      = (None, evs, source_ops env dest b, s2)" and q2: "quiet s2" by auto
  from Cons.IH[OF q2 rest, of "i + 1"] obtain evs' s3 where
    "backup_loop env cb srcs dest (i + 1) tot s2
      = (True, evs', concat (map (source_ops env dest) srcs), s3)" by blast
  with p c show ?case by auto
qed

lemma drop_events_simp [simp]: "drop_events (r, evs, ops, s) = (r, ops, s)"
  by (simp add: drop_events_def)

lemma copy_chunks_total:
  "drop_events (copy_chunks src dst g cur tot copied s)
     = drop_events (copy_chunks src dst g cur tot' copied s)"
proof (induction g arbitrary: copied s)
  case (Yield n g)
  obtain st s1 where p: "poll s = (st, s1)" by (cases "poll s")
  from Yield[of "copied + int n" s1] p show ?case
    by (auto simp: drop_events_def split: prod.splits)
qed (auto split: prod.splits)

lemma copy_function_total:
  "drop_events (copy_function cb job cur tot s) = drop_events (copy_function cb job cur tot' s)"
  using copy_chunks_total[of "job_src job" "job_dst job" "reads job" cur tot 0 s tot']
  by (auto simp: copy_function_def copy_with_progress_def drop_events_def
      split: prod.splits option.splits)

lemma copytree_entries_total:
  "drop_events (copytree_entries cb js cur tot errs s)
     = drop_events (copytree_entries cb js cur tot' errs s)"
proof (induction js arbitrary: errs s)
  case Nil
  show ?case by simp
next
  case (Cons job js)
  obtain r evs ops s1 where c: "copy_function cb job cur tot s = (r, evs, ops, s1)"
    by (cases "copy_function cb job cur tot s")
  obtain r' evs' ops' s1' where c': "copy_function cb job cur tot' s = (r', evs', ops', s1')"
    by (cases "copy_function cb job cur tot' s")
  from copy_function_total[of cb job cur tot s tot'] c c'
  have e: "r' = r" "ops' = ops" "s1' = s1" by simp_all
  from Cons[of "errs \<or> r = Some OSError" s1] c c' e show ?case
    by (auto simp: drop_events_def split: prod.splits option.splits exn.splits)
qed

lemma copytree_total:
  "drop_events (copytree env cb src target cur tot s)
     = drop_events (copytree env cb src target cur tot' s)"
  using copytree_entries_total[of cb "jobs (tree_jobs env src target)" cur tot False s tot']
  by (auto simp: copytree_def Let_def drop_events_def split: prod.splits)

lemma backup_loop_total:
  "drop_events (backup_loop env cb srcs dest i tot s)
     = drop_events (backup_loop env cb srcs dest i tot' s)"
proof (induction srcs arbitrary: i s)
  case Nil
  show ?case by (simp split: prod.splits)
next
  case (Cons src srcs)
  obtain st s1 where p: "poll s = (st, s1)" by (cases "poll s")
  let ?t = "path_join dest (basename src)"
  obtain r evs ops s2 where c: "copytree env cb src ?t i tot s1 = (r, evs, ops, s2)"
    by (cases "copytree env cb src ?t i tot s1")
  obtain r' evs' ops' s2' where c': "copytree env cb src ?t i tot' s1 = (r', evs', ops', s2')"
    by (cases "copytree env cb src ?t i tot' s1")
  from copytree_total[of env cb src ?t i tot s1 tot'] c c'
  have e: "r' = r" "ops' = ops" "s2' = s2" by simp_all
  from Cons[of "i + 1" s2] p c c' e show ?case
    by (auto simp: drop_events_def split: prod.splits option.splits)
qed

lemma copy_chunks_fails:
  "read_fails g \<Longrightarrow> fst (copy_chunks src dst g cur tot copied s) \<noteq> None"
proof (induction g arbitrary: copied s)
  case (Yield n g)
  obtain st s1 where p: "poll s = (st, s1)" by (cases "poll s")
  from Yield.prems have "n \<noteq> 0" and "read_fails g" by (auto split: if_splits)
  with Yield.IH[of "copied + int n" s1] p show ?case by (auto split: prod.splits)
qed (auto split: prod.splits)

lemma copy_function_fails:
  assumes "job_fails job"
  shows "fst (copy_function cb job cur tot s) \<noteq> None"
proof (cases cb)
  case False
  with assms show ?thesis by (simp add: copy_function_def copy2_eq split: prod.splits)
next
  case True
  show ?thesis
  proof (cases "openable job")
    case False
    with True show ?thesis by (simp add: copy_function_def copy_with_progress_def)
  next
    case op: True
    obtain r evs ops s1 where
      c: "copy_chunks (job_src job) (job_dst job) (reads job) cur tot 0 s = (r, evs, ops, s1)"
      by (cases "copy_chunks (job_src job) (job_dst job) (reads job) cur tot 0 s")
    show ?thesis
    proof (cases "read_fails (reads job)")
      case True
      from copy_chunks_fails[OF this, of "job_src job" "job_dst job" cur tot 0 s] c
      have "r \<noteq> None" by simp
      with c op \<open>cb\<close> show ?thesis
        by (auto simp: copy_function_def copy_with_progress_def)
    next
      case False
      with assms op have "\<not> copystat_ok job" by (simp add: job_fails_def)
      with c op \<open>cb\<close> show ?thesis
        by (auto simp: copy_function_def copy_with_progress_def split: option.splits)
    qed
  qed
qed

lemma copytree_entries_fails:
  "errs \<or> \<not> list_all (\<lambda>job. \<not> job_fails job) js \<Longrightarrow>
     fst (copytree_entries cb js cur tot errs s) \<noteq> None"
proof (induction js arbitrary: errs s)
  case Nil
  then show ?case by simp
next
  case (Cons job js)
  obtain r evs ops s1 where c: "copy_function cb job cur tot s = (r, evs, ops, s1)"
    by (cases "copy_function cb job cur tot s")
  show ?case
  proof (cases "r = Some OtherException")
    case True
    with c show ?thesis by simp
  next
    case False
    have "(errs \<or> r = Some OSError) \<or> \<not> list_all (\<lambda>job. \<not> job_fails job) js"
    proof (cases "job_fails job")
      case True
      from copy_function_fails[OF this, of cb cur tot s] c have "r \<noteq> None" by simp
      with False have "r = Some OSError" by (cases r) (auto intro: exn.exhaust)
      then show ?thesis by simp
    next
      case False
      with Cons.prems show ?thesis by auto
    qed
    from Cons.IH[OF this, of s1] c False show ?thesis
      by (auto split: prod.splits option.splits exn.splits)
  qed
qed

lemma copytree_fails:
  assumes "source_fails env dest src"
  shows "fst (copytree env cb src (path_join dest (basename src)) cur tot s) \<noteq> None"
proof -
  let ?plan = "tree_jobs env src (path_join dest (basename src))"
  show ?thesis
  proof (cases "makedirs_ok ?plan")
    case False
    then show ?thesis by (simp add: copytree_def)
  next
    case True
    with assms have "False \<or> \<not> list_all (\<lambda>job. \<not> job_fails job) (jobs ?plan)"
      by (simp add: source_fails_def Let_def)
    from copytree_entries_fails[OF this, of cb cur tot s] True show ?thesis
      by (auto simp: copytree_def Let_def split: prod.splits)
  qed
qed

lemma backup_loop_stops_at_failure:
  assumes "source_fails env dest src"
  shows "backup_loop env cb (earlier @ src # later) dest i tot s
      = backup_loop env cb (earlier @ [src]) dest i tot s
    \<and> \<not> fst (backup_loop env cb (earlier @ src # later) dest i tot s)"
proof (induction earlier arbitrary: i s)
  case Nil
  obtain st s1 where p: "poll s = (st, s1)" by (cases "poll s")
  obtain r evs ops s2 where
    c: "copytree env cb src (path_join dest (basename src)) i tot s1 = (r, evs, ops, s2)"
    by (cases "copytree env cb src (path_join dest (basename src)) i tot s1")
  from copytree_fails[OF assms, of cb i tot s1] c have "r \<noteq> None" by simp
  with p c show ?case by auto
next
  case (Cons b earlier)
  obtain st s1 where p: "poll s = (st, s1)" by (cases "poll s")
  obtain r evs ops s2 where
    c: "copytree env cb b (path_join dest (basename b)) i tot s1 = (r, evs, ops, s2)"
    by (cases "copytree env cb b (path_join dest (basename b)) i tot s1")
  from Cons[of "i + 1" s2] p c show ?case
    by (auto split: prod.splits option.splits)
qed

text \<open>
  C6. When the copy of one source directory raises, \<open>backup_directories\<close> returns
  \<open>False\<close>, in every interleaving with \<open>stop()\<close>, and \<open>BackupWorker.run\<close> passes the
  \<open>False\<close> on in its \<open>finished\<close> signal. No later source is attempted: the destination is
  touched exactly as if the batch ended with the failing source. Nothing is taken back:
  when nobody cancels and the sources before the failing one are copied without error,
  what has been done to the destination is all that the copies of these sources and of
  the failing one did, as far as the latter went.
\<close>

theorem copy_error_aborts_batch:
  assumes "source_fails env dest_path src_path"
  shows "fst (backup_directories env cb (earlier @ src_path # later) dest_path s) = False \<and>
    last (fst (BackupWorker_run env (earlier @ src_path # later) dest_path s))
      = BackupFinished False \<and>
    fst (snd (BackupWorker_run env (earlier @ src_path # later) dest_path s))
      = fst (snd (BackupWorker_run env (earlier @ [src_path]) dest_path s)) \<and>
    (True \<notin> set (stop_calls s) \<and> (\<forall>b \<in> set earlier. \<not> source_fails env dest_path b) \<longrightarrow>
       fst (snd (BackupWorker_run env (earlier @ src_path # later) dest_path s))
         = concat (map (source_ops env dest_path) (earlier @ [src_path])))"
proof -
  let ?s = "s\<lparr>stopped := False\<rparr>"
  let ?all = "earlier @ src_path # later"
  let ?cut = "earlier @ [src_path]"
  note stops = backup_loop_stops_at_failure[OF assms]
  have a: "fst (backup_directories env cb ?all dest_path s) = False"
    using conjunct2[OF stops[of cb earlier later 1 "length ?all" ?s]]
    by (simp add: backup_directories_def)
  have b: "fst (backup_directories env True ?all dest_path s) = False"
    using conjunct2[OF stops[of True earlier later 1 "length ?all" ?s]]
    by (simp add: backup_directories_def)
  have w: "BackupWorker_run env srcs dest_path s
      = (fst (snd (backup_directories env True srcs dest_path s))
           @ [BackupFinished (fst (backup_directories env True srcs dest_path s))],
         snd (snd (backup_directories env True srcs dest_path s)))" for srcs
    by (simp add: BackupWorker_run_def split: prod.splits)
  have "drop_events (backup_loop env True ?all dest_path 1 (length ?all) ?s)
      = drop_events (backup_loop env True ?cut dest_path 1 (length ?all) ?s)"
    using conjunct1[OF stops[of True earlier later 1 "length ?all" ?s]] by simp
  also have "\<dots> = drop_events (backup_loop env True ?cut dest_path 1 (length ?cut) ?s)"
    by (rule backup_loop_total)
  finally have c: "fst (snd (snd (backup_directories env True ?all dest_path s)))
      = fst (snd (snd (backup_directories env True ?cut dest_path s)))"
    unfolding backup_directories_def by (simp add: drop_events_def)
  have d: "fst (snd (snd (backup_directories env True ?all dest_path s)))
      = concat (map (source_ops env dest_path) ?cut)"
    if "True \<notin> set (stop_calls s)" and "\<forall>b \<in> set earlier. \<not> source_fails env dest_path b"
  proof -
    have q: "quiet ?s" using that(1) by (simp add: quiet_def)
    from backup_loop_first_failure[OF q that(2) assms, of True later 1 "length ?all"]
    show ?thesis by (auto simp: backup_directories_def)
  qed
  from a b c d show ?thesis by (simp add: w)
qed

theorem copy_error_aborts_batch_witness:
  "True \<notin> set (stop_calls \<lparr>stopped = False, stop_calls = [False, False]\<rparr>) \<and>
   \<not> source_fails backup_example_env ''/backup'' ''/src/a'' \<and>
   source_fails backup_example_env ''/backup'' ''/src/b'' \<and>
   fst (backup_directories backup_example_env True [''/src/a'', ''/src/b'', ''/src/c''] ''/backup''
          \<lparr>stopped = False, stop_calls = [False, False]\<rparr>) = False \<and>
   fst (snd (BackupWorker_run backup_example_env [''/src/a'', ''/src/b'', ''/src/c''] ''/backup''
          \<lparr>stopped = False, stop_calls = [False, False]\<rparr>))
     = [MakeDirs ''/backup/a'', OpenWrite ''/backup/a/x'', WriteChunk ''/backup/a/x'' 8192,
        WriteChunk ''/backup/a/x'' 100, CopyStat ''/backup/a/x'',
        MakeDirs ''/backup/b'', OpenWrite ''/backup/b/y1'', WriteChunk ''/backup/b/y1'' 10,
        CopyStat ''/backup/b/y1'', OpenWrite ''/backup/b/y2'', WriteChunk ''/backup/b/y2'' 5,
        OpenWrite ''/backup/b/y3'', WriteChunk ''/backup/b/y3'' 7, CopyStat ''/backup/b/y3'']"
proof -
  let ?s = "\<lparr>stopped = False, stop_calls = [False, False]\<rparr>"
  have h1: "True \<notin> set (stop_calls ?s)" by simp
  have h2: "\<not> source_fails backup_example_env ''/backup'' ''/src/a''"
    by (simp add: source_fails_def backup_example_env_def job_fails_def)
  then have h2': "\<forall>b \<in> set [''/src/a'']. \<not> source_fails backup_example_env ''/backup'' b"
    by simp
  have h3: "source_fails backup_example_env ''/backup'' ''/src/b''"
    by (simp add: source_fails_def backup_example_env_def job_fails_def)
  note t = copy_error_aborts_batch[OF h3, of True "[''/src/a'']" "[''/src/c'']" ?s]
  have ops: "concat (map (source_ops backup_example_env ''/backup'') ([''/src/a''] @ [''/src/b'']))
      = [MakeDirs ''/backup/a'', OpenWrite ''/backup/a/x'', WriteChunk ''/backup/a/x'' 8192,
         WriteChunk ''/backup/a/x'' 100, CopyStat ''/backup/a/x'',
         MakeDirs ''/backup/b'', OpenWrite ''/backup/b/y1'', WriteChunk ''/backup/b/y1'' 10,
         CopyStat ''/backup/b/y1'', OpenWrite ''/backup/b/y2'', WriteChunk ''/backup/b/y2'' 5,
         OpenWrite ''/backup/b/y3'', WriteChunk ''/backup/b/y3'' 7, CopyStat ''/backup/b/y3'']"
    by (simp add: source_ops_def backup_example_env_def job_ops_def job_fails_def
        path_join_def basename_def)
  from t h1 h2' have "fst (snd (BackupWorker_run backup_example_env
        ([''/src/a''] @ ''/src/b'' # [''/src/c'']) ''/backup'' ?s))
      = concat (map (source_ops backup_example_env ''/backup'') ([''/src/a''] @ [''/src/b'']))"
    by blast
  with t ops h1 h2 h3 show ?thesis by simp
qed

subsection \<open>Submitting a worker while another one runs\<close>

text \<open>
  C3. The program does not do what the claim says. A scan of \<open>/r\<close> is submitted, and a
  calculation right after it. \<open>_start_worker\<close> waits for the scan without asking it to
  stop: the scan lists both directories and reports \<open>finished(True)\<close> before the calculation
  starts, where the claim has it report \<open>finished(False)\<close>.
\<close>

theorem start_worker_waits_without_cancelling:
  "emitted
     (start_worker scan_example_env (CalculateWorker [])
        (start_worker scan_example_env (ScanWorker ''/r'')
           \<lparr>scanner_obj = \<lparr>stopped = False, stop_calls = []\<rparr>, current_worker = None,
            emitted = []\<rparr>))
     = [FileFound (FileItem ''a'' ''/r/a'' True), FileFound (FileItem ''b'' ''/r/b'' True),
        ScanFinished True]"
  by (simp add: start_worker_def ScanWorker_run_def scan_directory_def scan_example_env_def
      poll_def stop_def)

subsection \<open>The enumeration\<close>

lemma scan_loop_Yielded:
  "scan_loop g s = (Yielded (item, g'), s') \<Longrightarrow>
     listed_dirs g = item # listed_dirs g' \<and> \<not> stopped s'"
proof (induction g arbitrary: s)
  case (Yield entry g)
  obtain st s1 where p: "poll s = (st, s1)" by (cases "poll s")
  with Yield show ?case
    by (auto simp: poll_result split: if_splits option.splits bool.splits)
qed simp_all

lemma scan_loop_Raised:
  "scan_loop g s = (Raised, s') \<Longrightarrow> \<not> stopped s \<Longrightarrow> \<not> stopped s'"
proof (induction g arbitrary: s)
  case (Yield entry g)
  obtain st s1 where p: "poll s = (st, s1)" by (cases "poll s")
  with Yield show ?case
    by (auto simp: poll_result split: if_splits option.splits bool.splits)
qed simp_all

lemma scan_loop_pending:
  "fst (poll s) \<Longrightarrow> fst (scan_loop g s) \<noteq> Yielded x"
  by (cases g) (auto split: prod.splits)

lemma scan_worker_loop_cancelled:
  assumes "scan_worker_loop nx s = (evs, s')" and "stopped s'"
    and "nx \<noteq> Finished \<Longrightarrow> \<not> stopped s"
  shows "\<exists>items. evs = map FileFound items @ [ScanFinished False] \<and>
           prefix items (case nx of Yielded (item, g) \<Rightarrow> item # listed_dirs g | _ \<Rightarrow> [])"
  using assms
proof (induction nx s arbitrary: evs s' rule: scan_worker_loop.induct)
  case (1 s)
  obtain st s1 where p: "poll s = (st, s1)" by (cases "poll s")
  with 1 poll_result[OF p] show ?case by auto
next
  case (2 s)
  then show ?case by simp
next
  case (3 item g s)
  obtain st s1 where p: "poll s = (st, s1)" by (cases "poll s")
  show ?case
  proof (cases st)
    case True
    obtain st2 s2 where p2: "poll s1 = (st2, s2)" by (cases "poll s1")
    from "3.prems" p True p2 poll_result[OF p2] have "evs = [ScanFinished False]" by auto
    then show ?thesis by simp
  next
    case False
    obtain nx s2 where sl: "scan_loop g s1 = (nx, s2)" by (cases "scan_loop g s1")
    obtain evs2 s3 where wl: "scan_worker_loop nx s2 = (evs2, s3)"
      by (cases "scan_worker_loop nx s2")
    from "3.prems"(1) p False sl wl have evs: "evs = FileFound item # evs2" and s3: "s3 = s'"
      by auto
    have ns1: "\<not> stopped s1" using poll_result[OF p] False by simp
    have pre: "nx \<noteq> Finished \<Longrightarrow> \<not> stopped s2"
    proof (cases nx)
      case (Yielded pr)
      then show ?thesis using sl scan_loop_Yielded[of g s1 "fst pr" "snd pr" s2] by simp
    next
      case Raised
      then show ?thesis using sl scan_loop_Raised[of g s1 s2] ns1 by simp
    qed simp
    from "3.IH"[OF refl p[symmetric] False refl sl[symmetric] wl[unfolded s3] "3.prems"(2) pre]
    obtain items where i1: "evs2 = map FileFound items @ [ScanFinished False]"
      and i2: "prefix items (case nx of Yielded (item, g) \<Rightarrow> item # listed_dirs g | _ \<Rightarrow> [])"
      by auto
    have "prefix items (listed_dirs g)"
    proof (cases nx)
      case (Yielded pr)
      then show ?thesis
        using sl scan_loop_Yielded[of g s1 "fst pr" "snd pr" s2] i2 by (cases pr) simp
    qed (use i2 in simp_all)
    then have "evs = map FileFound (item # items) @ [ScanFinished False] \<and>
        prefix (item # items) (item # listed_dirs g)"
      using evs i1 by simp
    then show ?thesis by (intro exI[of _ "item # items"]) simp
  qed
qed

lemma ScanWorker_run_cancelled:
  assumes "stopped (snd (ScanWorker_run env p s))"
  shows "\<exists>items. fst (ScanWorker_run env p s) = map FileFound items @ [ScanFinished False] \<and>
           prefix items (listed_dirs (scandir env p))"
proof -
  obtain nx s1 where sd: "scan_loop (scandir env p) (s\<lparr>stopped := False\<rparr>) = (nx, s1)"
    by (cases "scan_loop (scandir env p) (s\<lparr>stopped := False\<rparr>)")
  obtain evs s' where wl: "scan_worker_loop nx s1 = (evs, s')"
    by (cases "scan_worker_loop nx s1")
  have run: "ScanWorker_run env p s = (evs, s')"
    by (simp add: ScanWorker_run_def scan_directory_def sd wl)
  have pre: "nx \<noteq> Finished \<Longrightarrow> \<not> stopped s1"
  proof (cases nx)
    case (Yielded pr)
    then show ?thesis
      using sd scan_loop_Yielded[of "scandir env p" _ "fst pr" "snd pr" s1] by simp
  next
    case Raised
    then show ?thesis using sd scan_loop_Raised[of "scandir env p" _ s1] by simp
  qed simp
  from assms run have st: "stopped s'" by simp
  from scan_worker_loop_cancelled[OF wl st pre]
  obtain items where i1: "evs = map FileFound items @ [ScanFinished False]"
    and i2: "prefix items (case nx of Yielded (item, g) \<Rightarrow> item # listed_dirs g | _ \<Rightarrow> [])"
    by auto
  have "prefix items (listed_dirs (scandir env p))"
  proof (cases nx)
    case (Yielded pr)
    then show ?thesis
      using sd scan_loop_Yielded[of "scandir env p" _ "fst pr" "snd pr" s1] i2 by (cases pr) simp
  qed (use i2 in simp_all)
  with i1 run show ?thesis by auto
qed

text \<open>
  C9. The flag is checked before each entry is yielded: when the check reads a requested
  stop, \<open>scan_directory\<close> yields nothing more. When a stop has been noticed during a run of
  \<open>ScanWorker.run\<close>, the signals of the run are \<open>file_found\<close> for a prefix of the
  directories of the listing, closed by \<open>finished(False)\<close>; no error signal is among them.
\<close>

theorem scan_cancellation:
  "(fst (poll sa) \<longrightarrow> (\<forall>x. fst (scan_loop g sa) \<noteq> Yielded x)) \<and>
   (stopped (snd (ScanWorker_run env p s)) \<longrightarrow>
      (\<exists>items. fst (ScanWorker_run env p s) = map FileFound items @ [ScanFinished False] \<and>
         prefix items (listed_dirs (scandir env p))))"
  using scan_loop_pending[of sa g] ScanWorker_run_cancelled[of env p s] by blast

theorem scan_cancellation_witness:
  "fst (poll \<lparr>stopped = False, stop_calls = [True]\<rparr>) \<and>
   fst (scan_loop (scandir scan_example_env ''/r'') \<lparr>stopped = False, stop_calls = [True]\<rparr>)
     = Finished \<and>
   stopped (snd (ScanWorker_run scan_example_env ''/r''
     \<lparr>stopped = False, stop_calls = [False, False, True]\<rparr>)) \<and>
   fst (ScanWorker_run scan_example_env ''/r''
     \<lparr>stopped = False, stop_calls = [False, False, True]\<rparr>)
     = [FileFound (FileItem ''a'' ''/r/a'' True), ScanFinished False]"
proof -
  let ?s1 = "\<lparr>stopped = False, stop_calls = [True]\<rparr>"
  let ?s3 = "\<lparr>stopped = False, stop_calls = [False, False, True]\<rparr>"
  have h1: "fst (poll ?s1)" by (simp add: poll_def stop_def)
  have run: "ScanWorker_run scan_example_env ''/r'' ?s3
      = ([FileFound (FileItem ''a'' ''/r/a'' True), ScanFinished False],
         \<lparr>stopped = True, stop_calls = []\<rparr>)"
    by (simp add: ScanWorker_run_def scan_directory_def scan_example_env_def poll_def stop_def)
  then have h2: "stopped (snd (ScanWorker_run scan_example_env ''/r'' ?s3))" by simp
  from scan_cancellation[of ?s1 "scandir scan_example_env ''/r''" scan_example_env "''/r''" ?s3]
    h1 h2
  have "(\<forall>x. fst (scan_loop (scandir scan_example_env ''/r'') ?s1) \<noteq> Yielded x) \<and>
      (\<exists>items. fst (ScanWorker_run scan_example_env ''/r'' ?s3)
         = map FileFound items @ [ScanFinished False])"
    by blast
  moreover have "fst (scan_loop (scandir scan_example_env ''/r'') ?s1) = Finished"
    by (simp add: scan_example_env_def poll_def stop_def)
  ultimately show ?thesis using h1 h2 run by simp
qed

subsection \<open>Clearing the flag\<close>

lemma scan_run_quiet:
  "quiet s \<Longrightarrow>
     \<exists>s'. (let (nx, s1) = scan_loop g s in scan_worker_loop nx s1)
        = (map FileFound (listed_dirs g)
             @ (if listing_raises g then [ScanError, ScanFinished False] else [ScanFinished True]),
           s')
      \<and> quiet s'"
proof (induction g arbitrary: s)
  case Stop
  from poll_quiet[OF Stop] show ?case by auto
next
  case Raise
  then show ?case by simp
next
  case (Yield entry g)
  from poll_quiet[OF Yield.prems] obtain s1 where p: "poll s = (False, s1)" and q1: "quiet s1"
    by blast
  show ?case
  proof (cases "entry_is_dir entry")
    case None
    with p q1 show ?thesis by simp
  next
    case (Some d)
    show ?thesis
    proof (cases d)
      case False
      with Some p Yield.IH[OF q1] show ?thesis by simp
    next
      case True
      from poll_quiet[OF q1] obtain s2 where p2: "poll s1 = (False, s2)" and q2: "quiet s2"
        by blast
      from Yield.IH[OF q2] obtain s' where
        r: "(let (nx, s1) = scan_loop g s2 in scan_worker_loop nx s1)
          = (map FileFound (listed_dirs g)
               @ (if listing_raises g then [ScanError, ScanFinished False] else [ScanFinished True]),
             s')" and q': "quiet s'" by blast
      from r Some True p p2 q' show ?thesis by (auto split: prod.splits)
    qed
  qed
qed

lemma backup_loop_quiet:
  "quiet s \<Longrightarrow> quiet (snd (snd (snd (backup_loop env cb srcs dest i tot s))))"
proof (induction srcs arbitrary: i s)
  case Nil
  from poll_quiet[OF Nil] show ?case by auto
next
  case (Cons b srcs)
  from poll_quiet[OF Cons.prems] obtain s1 where p: "poll s = (False, s1)" and q: "quiet s1"
    by blast
  from copytree_quiet[OF q, of env cb b dest i tot] obtain evs s2 where
    c: "copytree env cb b (path_join dest (basename b)) i tot s1
      = ((if source_fails env dest b then Some OSError else None), evs,
         source_ops env dest b, s2)" and q2: "quiet s2" by blast
  from Cons.IH[OF q2, of "i + 1"] p c q2 show ?case
    by (auto split: prod.splits)
qed

text \<open>
  C10. \<open>scan_directory\<close> and \<open>backup_directories\<close> clear the flag when they start. A
  \<open>stop()\<close> before them has no influence on the run; and when nobody calls \<open>stop()\<close>
  afterwards, the flag is clear when the run ends, the scan started after the \<open>stop()\<close>
  reports every directory of the listing and \<open>finished(True)\<close> (or the error of the
  listing), and the backup started after it returns \<open>True\<close> when no source fails.
  \<open>CalculateWorker.run\<close> never clears the flag: after a \<open>stop()\<close> the batch emits no
  progress signal, only \<open>finished\<close>, leaves every item as it was, and the flag stays set.
\<close>

theorem stop_flag_cleared_by_scan_and_backup_only:
  "ScanWorker_run env p (stop s) = ScanWorker_run env p s \<and>
   backup_directories env cb src_paths dest_path (stop s)
     = backup_directories env cb src_paths dest_path s \<and>
   (True \<notin> set (stop_calls s) \<longrightarrow>
      fst (ScanWorker_run env p (stop s))
        = map FileFound (listed_dirs (scandir env p))
          @ (if listing_raises (scandir env p) then [ScanError, ScanFinished False]
             else [ScanFinished True]) \<and>
      \<not> stopped (snd (ScanWorker_run env p (stop s))) \<and>
      \<not> stopped (snd (snd (snd (backup_directories env cb src_paths dest_path (stop s))))) \<and>
      ((\<forall>b \<in> set src_paths. \<not> source_fails env dest_path b) \<longrightarrow>
         fst (backup_directories env cb src_paths dest_path (stop s)) = True)) \<and>
   fst (CalculateWorker_run env items (stop s)) = [CalcFinished] \<and>
   fst (snd (CalculateWorker_run env items (stop s))) = items \<and>
   stopped (snd (snd (CalculateWorker_run env items (stop s))))"
proof -
  have a: "ScanWorker_run env p (stop s) = ScanWorker_run env p s"
    by (simp add: ScanWorker_run_def scan_directory_def stop_def)
  have b: "backup_directories env cb src_paths dest_path (stop s)
      = backup_directories env cb src_paths dest_path s"
    by (simp add: backup_directories_def stop_def)
  have d: "fst (ScanWorker_run env p (stop s))
        = map FileFound (listed_dirs (scandir env p))
          @ (if listing_raises (scandir env p) then [ScanError, ScanFinished False]
             else [ScanFinished True]) \<and>
      \<not> stopped (snd (ScanWorker_run env p (stop s))) \<and>
      \<not> stopped (snd (snd (snd (backup_directories env cb src_paths dest_path (stop s))))) \<and>
      ((\<forall>b \<in> set src_paths. \<not> source_fails env dest_path b) \<longrightarrow>
         fst (backup_directories env cb src_paths dest_path (stop s)) = True)"
    if quiet_calls: "True \<notin> set (stop_calls s)"
  proof -
    have q: "quiet (stop s\<lparr>stopped := False\<rparr>)"
      using quiet_calls by (simp add: quiet_def stop_def)
    from scan_run_quiet[OF q, of "scandir env p"] obtain s' where
      r: "ScanWorker_run env p (stop s)
        = (map FileFound (listed_dirs (scandir env p))
             @ (if listing_raises (scandir env p) then [ScanError, ScanFinished False]
                else [ScanFinished True]), s')" and q': "quiet s'"
      by (auto simp: ScanWorker_run_def scan_directory_def)
    have d1: "\<not> stopped (snd (ScanWorker_run env p (stop s)))"
      using r q' by (simp add: quiet_def)
    have d2: "\<not> stopped (snd (snd (snd (backup_directories env cb src_paths dest_path (stop s)))))"
      using backup_loop_quiet[OF q, of env cb src_paths dest_path 1 "length src_paths"]
      by (simp add: backup_directories_def quiet_def)
    have d3: "fst (backup_directories env cb src_paths dest_path (stop s)) = True"
      if "\<forall>b \<in> set src_paths. \<not> source_fails env dest_path b"
      using backup_loop_no_failure[OF q that, of cb 1 "length src_paths"]
      by (auto simp: backup_directories_def)
    from r d1 d2 d3 show ?thesis by simp
  qed
  obtain s1 where p: "poll (stop s) = (True, s1)" and s1: "stopped s1"
    using poll_stopped[of "stop s"] by (cases "poll (stop s)") (auto simp: stop_def)
  have "\<exists>s2. calculate_loop env items 1 (length items) (stop s) = ([], items, s2) \<and> stopped s2"
  proof (cases items)
    case Nil
    then show ?thesis by (simp add: stop_def)
  next
    case (Cons item rest)
    then show ?thesis using p s1 by simp
  qed
  then obtain s2 where
    c: "CalculateWorker_run env items (stop s) = ([CalcFinished], items, s2)" and "stopped s2"
    by (auto simp: CalculateWorker_run_def)
  with a b d show ?thesis by simp
qed

theorem stop_flag_cleared_by_scan_and_backup_only_witness:
  "True \<notin> set (stop_calls \<lparr>stopped = False, stop_calls = [False]\<rparr>) \<and>
   \<not> source_fails backup_example_env ''/backup'' ''/src/a'' \<and>
   fst (ScanWorker_run scan_example_env ''/r'' (stop \<lparr>stopped = False, stop_calls = [False]\<rparr>))
     = [FileFound (FileItem ''a'' ''/r/a'' True), FileFound (FileItem ''b'' ''/r/b'' True),
        ScanFinished True] \<and>
   \<not> stopped (snd (ScanWorker_run scan_example_env ''/r''
        (stop \<lparr>stopped = False, stop_calls = [False]\<rparr>))) \<and>
   \<not> stopped (snd (snd (snd (backup_directories backup_example_env True [''/src/a''] ''/backup''
        (stop \<lparr>stopped = False, stop_calls = [False]\<rparr>))))) \<and>
   fst (backup_directories backup_example_env True [''/src/a''] ''/backup''
        (stop \<lparr>stopped = False, stop_calls = [False]\<rparr>)) = True"
proof -
  let ?s = "\<lparr>stopped = False, stop_calls = [False]\<rparr>"
  have h1: "True \<notin> set (stop_calls ?s)" by simp
  have h2: "\<not> source_fails backup_example_env ''/backup'' ''/src/a''"
    by (simp add: source_fails_def backup_example_env_def job_fails_def)
  then have h2': "\<forall>b \<in> set [''/src/a'']. \<not> source_fails backup_example_env ''/backup'' b"
    by simp
  note t1 = stop_flag_cleared_by_scan_and_backup_only[where env = scan_example_env and p = "''/r''" and s = ?s]
  note t2 = stop_flag_cleared_by_scan_and_backup_only[where env = backup_example_env and s = ?s and cb = True
      and src_paths = "[''/src/a'']" and dest_path = "''/backup''"]
  have l: "map FileFound (listed_dirs (scandir scan_example_env ''/r''))
        @ (if listing_raises (scandir scan_example_env ''/r'')
           then [ScanError, ScanFinished False] else [ScanFinished True])
      = [FileFound (FileItem ''a'' ''/r/a'' True), FileFound (FileItem ''b'' ''/r/b'' True),
         ScanFinished True]"
    by (simp add: scan_example_env_def)
  from t1 h1 have a: "fst (ScanWorker_run scan_example_env ''/r'' (stop ?s))
        = map FileFound (listed_dirs (scandir scan_example_env ''/r''))
          @ (if listing_raises (scandir scan_example_env ''/r'')
             then [ScanError, ScanFinished False] else [ScanFinished True])"
    and b: "\<not> stopped (snd (ScanWorker_run scan_example_env ''/r'' (stop ?s)))"
    by blast+
  from t2 h1 h2' have c: "\<not> stopped (snd (snd (snd (backup_directories backup_example_env True
        [''/src/a''] ''/backup'' (stop ?s)))))"
    and d: "fst (backup_directories backup_example_env True [''/src/a''] ''/backup'' (stop ?s)) = True"
    by blast+
  from a b c d h1 h2 show ?thesis unfolding l by (intro conjI)
qed

end
